theory Spec2Isabelle
  imports Main "HOL-Library.Word"
begin

unbundle bit_operations_syntax

section \<open>IR instructions\<close>

text \<open>
  The IR opcodes that \<^verbatim>\<open>RiscVCompVec.cpp\<close> names, and \<open>OtherOp\<close> for every other value of
  the opcode enumeration (the enumeration itself is declared outside the two source files).
\<close>

datatype IROp =
    Vec4Init | Vec4Shuffle | Vec4Blend | Vec4Mov
  | Vec4Add | Vec4Sub | Vec4Mul | Vec4Div | Vec4Scale | Vec4Neg | Vec4Abs
  | Vec4Dot
  | Vec2Unpack16To31 | Vec2Unpack16To32 | Vec4Pack32To8 | Vec2Pack31To16
  | Vec4Unpack8To32 | Vec4DuplicateUpperBitsAndShift1 | Vec4Pack31To8 | Vec2Pack32To16
  | Vec4ClampToZero | Vec2ClampToZero
  | OtherOp nat

text \<open>
  An IR instruction: opcode, three 8-bit register operands and a 32-bit constant. The
  routines compute \<^verbatim>\<open>inst.dest + i\<close> in \<^verbatim>\<open>int\<close>, hence \<open>unat (dest inst) + i\<close> below.
\<close>

record IRInst =
  op :: IROp
  dest :: "8 word"
  src1 :: "8 word"
  src2 :: "8 word"
  constant_u32 :: "32 word"

datatype Vec4Init = AllZERO | AllONE | AllMinusONE | Set_1000 | Set_0100 | Set_0010 | Set_0001

text \<open>
  The cast \<^verbatim>\<open>(Vec4Init)inst.src1\<close>. The enumeration is declared outside the source files; its
  enumerators are taken in the order of the cases, from 0. A value past the last one matches
  no case of the inner switch.
\<close>

definition Vec4Init_of :: "8 word \<Rightarrow> Vec4Init option" where
  "Vec4Init_of v =
     (if v = 0 then Some AllZERO else if v = 1 then Some AllONE
      else if v = 2 then Some AllMinusONE else if v = 3 then Some Set_1000
      else if v = 4 then Some Set_0100 else if v = 5 then Some Set_0010
      else if v = 6 then Some Set_0001 else None)"

section \<open>Host instructions and their execution\<close>

text \<open>
  Host registers: the zero register, the two integer scratch registers the routines use,
  and the floating-point registers \<open>F n\<close> that the register cache hands out.
\<close>

datatype RiscVReg = R_ZERO | SCRATCH1 | SCRATCH2 | F nat

text \<open>
  The emitter calls made by the routines. \<open>FMV32 rd rs\<close> is \<^verbatim>\<open>FMV(32, rd, rs)\<close>,
  \<open>FMV_X_W\<close> is \<^verbatim>\<open>FMV(FMv::X, FMv::W, rd, rs)\<close>, \<open>FMV_W_X\<close> is \<^verbatim>\<open>FMV(FMv::W, FMv::X, rd, rs)\<close>,
  \<open>FCVT_S_W\<close> is \<^verbatim>\<open>FCVT(FConv::S, FConv::W, rd, rs)\<close>; the arithmetic ones carry the width 32
  in their name.
\<close>

datatype RiscVInst =
    FCVT_S_W RiscVReg RiscVReg
  | LI RiscVReg "64 word"
  | FMV_W_X RiscVReg RiscVReg
  | FMV_X_W RiscVReg RiscVReg
  | FMV32 RiscVReg RiscVReg
  | FADD32 RiscVReg RiscVReg RiscVReg
  | FSUB32 RiscVReg RiscVReg RiscVReg
  | FMUL32 RiscVReg RiscVReg RiscVReg
  | FDIV32 RiscVReg RiscVReg RiscVReg
  | FNEG32 RiscVReg RiscVReg
  | FABS32 RiscVReg RiscVReg
  | FMADD32 RiscVReg RiscVReg RiscVReg RiscVReg
  | SRLI RiscVReg RiscVReg nat
  | SLLI RiscVReg RiscVReg nat
  | SRLIW RiscVReg RiscVReg nat
  | SRAIW RiscVReg RiscVReg nat
  | ANDI RiscVReg RiscVReg "64 word"
  | OR_X RiscVReg RiscVReg RiscVReg
  | AND_X RiscVReg RiscVReg RiscVReg
  | ANDN RiscVReg RiscVReg RiscVReg
  | NOT_X RiscVReg RiscVReg

text \<open>
  The host state: 64-bit integer registers (\<^verbatim>\<open>SRLIW\<close> and \<^verbatim>\<open>SRAIW\<close> exist on RV64 only) and
  single-precision registers held as their 32-bit patterns.
\<close>

record machine =
  xr :: "RiscVReg \<Rightarrow> 64 word"
  fr :: "RiscVReg \<Rightarrow> 32 word"

text \<open>
  Rounding arithmetic of the host FPU is a parameter of the execution: the routines only
  choose which operations are emitted and on which registers.
\<close>

record FPU =
  fadd :: "32 word \<Rightarrow> 32 word \<Rightarrow> 32 word"
  fsub :: "32 word \<Rightarrow> 32 word \<Rightarrow> 32 word"
  fmul :: "32 word \<Rightarrow> 32 word \<Rightarrow> 32 word"
  fdiv :: "32 word \<Rightarrow> 32 word \<Rightarrow> 32 word"
  fmadd :: "32 word \<Rightarrow> 32 word \<Rightarrow> 32 word \<Rightarrow> 32 word"
  fcvt_s_w :: "32 word \<Rightarrow> 32 word"

definition getx :: "machine \<Rightarrow> RiscVReg \<Rightarrow> 64 word" where
  "getx s r = (if r = R_ZERO then 0 else xr s r)"

definition setx :: "RiscVReg \<Rightarrow> 64 word \<Rightarrow> machine \<Rightarrow> machine" where
  "setx r v s = (if r = R_ZERO then s else s\<lparr>xr := (xr s)(r := v)\<rparr>)"

definition setf :: "RiscVReg \<Rightarrow> 32 word \<Rightarrow> machine \<Rightarrow> machine" where
  "setf r v s = s\<lparr>fr := (fr s)(r := v)\<rparr>"

text \<open>A 32-bit result of a \<^verbatim>\<open>*W\<close> instruction or of \<^verbatim>\<open>fmv.x.w\<close> is sign-extended to 64 bits.\<close>

definition sext32 :: "32 word \<Rightarrow> 64 word" where
  "sext32 w = scast w"

definition low32 :: "64 word \<Rightarrow> 32 word" where
  "low32 w = ucast w"

fun exec_inst :: "FPU \<Rightarrow> RiscVInst \<Rightarrow> machine \<Rightarrow> machine" where
  "exec_inst fpu (FCVT_S_W rd rs) s = setf rd (fcvt_s_w fpu (low32 (getx s rs))) s"
| "exec_inst fpu (LI rd v) s = setx rd v s"
| "exec_inst fpu (FMV_W_X rd rs) s = setf rd (low32 (getx s rs)) s"
| "exec_inst fpu (FMV_X_W rd rs) s = setx rd (sext32 (fr s rs)) s"
| "exec_inst fpu (FMV32 rd rs) s = setf rd (fr s rs) s"
| "exec_inst fpu (FADD32 rd ra rb) s = setf rd (fadd fpu (fr s ra) (fr s rb)) s"
| "exec_inst fpu (FSUB32 rd ra rb) s = setf rd (fsub fpu (fr s ra) (fr s rb)) s"
| "exec_inst fpu (FMUL32 rd ra rb) s = setf rd (fmul fpu (fr s ra) (fr s rb)) s"
| "exec_inst fpu (FDIV32 rd ra rb) s = setf rd (fdiv fpu (fr s ra) (fr s rb)) s"
| "exec_inst fpu (FNEG32 rd rs) s = setf rd (fr s rs XOR 0x80000000) s"
| "exec_inst fpu (FABS32 rd rs) s = setf rd (fr s rs AND 0x7FFFFFFF) s"
| "exec_inst fpu (FMADD32 rd ra rb rc) s = setf rd (fmadd fpu (fr s ra) (fr s rb) (fr s rc)) s"
| "exec_inst fpu (SRLI rd rs n) s = setx rd (drop_bit n (getx s rs)) s"
| "exec_inst fpu (SLLI rd rs n) s = setx rd (push_bit n (getx s rs)) s"
| "exec_inst fpu (SRLIW rd rs n) s = setx rd (sext32 (drop_bit n (low32 (getx s rs)))) s"
| "exec_inst fpu (SRAIW rd rs n) s = setx rd (sext32 (signed_drop_bit n (low32 (getx s rs)))) s"
| "exec_inst fpu (ANDI rd rs imm) s = setx rd (getx s rs AND imm) s"
| "exec_inst fpu (OR_X rd ra rb) s = setx rd (getx s ra OR getx s rb) s"
| "exec_inst fpu (AND_X rd ra rb) s = setx rd (getx s ra AND getx s rb) s"
| "exec_inst fpu (ANDN rd ra rb) s = setx rd (getx s ra AND NOT (getx s rb)) s"
| "exec_inst fpu (NOT_X rd rs) s = setx rd (NOT (getx s rs)) s"

fun exec :: "FPU \<Rightarrow> RiscVInst list \<Rightarrow> machine \<Rightarrow> machine" where
  "exec fpu [] s = s"
| "exec fpu (i # is) s = exec fpu is (exec_inst fpu i s)"

section \<open>What a routine does: calls on the register cache, the emitter and the generic compiler\<close>

datatype MIPSMap = INIT | NOINIT

text \<open>
  A routine returns nothing; what it does is the sequence of calls it makes. Guest
  registers are numbers; \<open>Host\<close> is an emitted host instruction; \<open>AssertFailed\<close> is a failed
  \<^verbatim>\<open>_assert_\<close> or \<^verbatim>\<open>_assert_msg_\<close>.
\<close>

datatype Action =
    SpillLock nat
  | ReleaseSpillLock nat
  | ReleaseSpillLocksAndDiscardTemps
  | MapReg nat MIPSMap
  | Map4DirtyIn nat nat
  | Map4DirtyInIn nat nat nat
  | Map4DirtyInTemp nat nat
  | MapDirtyInIn nat nat nat
  | Host RiscVInst
  | CompIR_Generic IRInst
  | AssertFailed

fun host_code :: "Action list \<Rightarrow> RiscVInst list" where
  "host_code [] = []"
| "host_code (Host i # as) = i # host_code as"
| "host_code (_ # as) = host_code as"

text \<open>\<^verbatim>\<open>INVALIDOP\<close>: the assertion on \<^verbatim>\<open>false\<close>, then the generic compiler.\<close>

definition INVALIDOP :: "IRInst \<Rightarrow> Action list" where
  "INVALIDOP inst = [AssertFailed, CompIR_Generic inst]"

text \<open>\<^verbatim>\<open>LI(SCRATCH1, 1.0f)\<close> and \<^verbatim>\<open>LI(SCRATCH1, -1.0f)\<close> load the pattern of the float.\<close>

definition float_one :: "32 word" where
  "float_one = 0x3F800000"

definition float_minus_one :: "32 word" where
  "float_minus_one = 0xBF800000"

section \<open>CompIR_VecAssign\<close>

text \<open>
  The register cache is outside the source files. Its answers are parameters of the
  routines: \<open>R\<close> is \<^verbatim>\<open>fpr.R\<close>, the host register that holds a guest register once it is mapped,
  and \<open>tempReg\<close> is the register returned by \<^verbatim>\<open>fpr.Map4DirtyInTemp\<close>.
\<close>

definition NOT_FOUND :: nat where
  "NOT_FOUND = 4"

text \<open>\<^verbatim>\<open>std::find(arr + start, arr + 4, val) - arr\<close>\<close>

definition findIndex :: "nat list \<Rightarrow> nat \<Rightarrow> nat \<Rightarrow> nat" where
  "findIndex arr val start =
     (case List.find (\<lambda>j. arr ! j = val) [start..<4] of None \<Rightarrow> NOT_FOUND | Some j \<Rightarrow> j)"

text \<open>
  \<open>moveChained\<close> works on the pair of the \<^verbatim>\<open>state\<close> array and the actions emitted so far;
  \<open>R\<close> is \<^verbatim>\<open>fpr.R\<close> and \<open>d\<close> is \<^verbatim>\<open>inst.dest\<close>.
\<close>

definition moveChained ::
  "(nat \<Rightarrow> RiscVReg) \<Rightarrow> nat \<Rightarrow> RiscVReg \<Rightarrow> nat list \<Rightarrow> bool \<Rightarrow>
     nat list \<times> Action list \<Rightarrow> nat list \<times> Action list" where
  "moveChained R d tempReg lanes rot = (\<lambda>(state, out).
     let firstState = state ! hd lanes;
         out1 = (if rot then out @ [Host (FMV32 tempReg (R (d + hd lanes)))] else out);
         (state2, out2) =
           foldl (\<lambda>(st, ou) i.
                    (st[lanes ! (i - 1) := st ! (lanes ! i)],
                     ou @ [Host (FMV32 (R (d + lanes ! (i - 1))) (R (d + lanes ! i)))]))
                 (state, out1) [1..<length lanes]
     in if rot
        then (state2[last lanes := firstState], out2 @ [Host (FMV32 (R (d + last lanes)) tempReg)])
        else (state2, out2))"

text \<open>
  One iteration of the loop over \<open>i\<close>. A failed \<^verbatim>\<open>_assert_(foundIn != NOT_FOUND)\<close> ends the
  emission with \<open>AssertFailed\<close> (the third component turns \<open>False\<close>).
\<close>

definition shuffle_step ::
  "(nat \<Rightarrow> RiscVReg) \<Rightarrow> nat \<Rightarrow> RiscVReg \<Rightarrow> nat list \<Rightarrow>
     nat list \<times> Action list \<times> bool \<Rightarrow> nat \<Rightarrow> nat list \<times> Action list \<times> bool" where
  "shuffle_step R d tempReg goal = (\<lambda>(state, out, ok) i.
     if \<not> ok then (state, out, ok)
     else if goal ! i = state ! i then (state, out, ok)
     else
       let neededBy = findIndex goal (state ! i) (i + 1);
           foundIn = findIndex state (goal ! i) 0
       in if foundIn = NOT_FOUND then (state, out @ [AssertFailed], False)
          else if neededBy = NOT_FOUND \<or> neededBy = foundIn
          then (case moveChained R d tempReg [i, foundIn] (neededBy = foundIn) (state, out)
                of (st, ou) \<Rightarrow> (st, ou, True))
          else
            let neededByDepth2 = findIndex goal (state ! neededBy) (i + 1)
            in if neededByDepth2 = NOT_FOUND \<or> neededByDepth2 = foundIn
               then (case moveChained R d tempReg [neededBy, i, foundIn]
                            (neededByDepth2 = foundIn) (state, out)
                     of (st, ou) \<Rightarrow> (st, ou, True))
               else
                 let neededByDepth3 = findIndex goal (state ! neededByDepth2) (i + 1)
                 in (case moveChained R d tempReg [neededByDepth2, neededBy, i, foundIn]
                            (neededByDepth3 = foundIn) (state, out)
                     of (st, ou) \<Rightarrow> (st, ou, True)))"

text \<open>The in-place branch after the mapping call, for the array \<^verbatim>\<open>goal\<close>.\<close>

definition shuffle_inplace ::
  "(nat \<Rightarrow> RiscVReg) \<Rightarrow> nat \<Rightarrow> RiscVReg \<Rightarrow> nat list \<Rightarrow> Action list" where
  "shuffle_inplace R d tempReg goal =
     fst (snd (foldl (shuffle_step R d tempReg goal) ([0, 1, 2, 3], [], True) [0..<4]))"

text \<open>\<^verbatim>\<open>(inst.src2 >> (i * 2)) & 3\<close>\<close>

definition shuffle_lane :: "8 word \<Rightarrow> nat \<Rightarrow> nat" where
  "shuffle_lane imm i = unat (drop_bit (i * 2) imm AND 3)"

definition Vec4Init_code :: "(nat \<Rightarrow> RiscVReg) \<Rightarrow> nat \<Rightarrow> Vec4Init option \<Rightarrow> Action list" where
  "Vec4Init_code R d v =
     (let set1 = (\<lambda>k. Host (LI SCRATCH1 (sext32 float_one)) #
                      concat (map (\<lambda>i. if i = k then [Host (FMV_W_X (R (d + i)) SCRATCH1)]
                                        else [Host (FCVT_S_W (R (d + i)) R_ZERO)]) [0..<4]))
      in case v of
        Some AllZERO \<Rightarrow> concat (map (\<lambda>i. [Host (FCVT_S_W (R (d + i)) R_ZERO)]) [0..<4])
      | Some AllONE \<Rightarrow>
          [Host (LI SCRATCH1 (sext32 float_one)), Host (FMV_W_X (R d) SCRATCH1)] @
          concat (map (\<lambda>i. [Host (FMV32 (R (d + i)) (R d))]) [1..<4])
      | Some AllMinusONE \<Rightarrow>
          [Host (LI SCRATCH1 (sext32 float_minus_one)), Host (FMV_W_X (R d) SCRATCH1)] @
          concat (map (\<lambda>i. [Host (FMV32 (R (d + i)) (R d))]) [1..<4])
      | Some Set_1000 \<Rightarrow> set1 0
      | Some Set_0100 \<Rightarrow> set1 1
      | Some Set_0010 \<Rightarrow> set1 2
      | Some Set_0001 \<Rightarrow> set1 3
      | None \<Rightarrow> [])"

definition CompIR_VecAssign :: "(nat \<Rightarrow> RiscVReg) \<Rightarrow> RiscVReg \<Rightarrow> IRInst \<Rightarrow> Action list" where
  "CompIR_VecAssign R tempReg inst =
     (let d = unat (dest inst); s1 = unat (src1 inst); s2 = unat (src2 inst) in
      case op inst of
        Vec4Init \<Rightarrow>
          concat (map (\<lambda>i. [SpillLock (d + i)]) [0..<4]) @
          concat (map (\<lambda>i. [MapReg (d + i) NOINIT]) [0..<4]) @
          concat (map (\<lambda>i. [ReleaseSpillLock (d + i)]) [0..<4]) @
          Vec4Init_code R d (Vec4Init_of (src1 inst))
      | Vec4Shuffle \<Rightarrow>
          if dest inst = src1 inst
          then Map4DirtyInTemp d s1 #
               shuffle_inplace R d tempReg (map (shuffle_lane (src2 inst)) [0..<4])
          else Map4DirtyIn d s1 #
               concat (map (\<lambda>i. let lane = shuffle_lane (src2 inst) i
                                in [Host (FMV32 (R (d + i)) (R (s1 + lane)))]) [0..<4])
      | Vec4Blend \<Rightarrow>
          Map4DirtyInIn d s1 s2 #
          concat (map (\<lambda>i. let which = drop_bit i (constant_u32 inst) AND 1
                           in [Host (FMV32 (R (d + i)) (R ((if which \<noteq> 0 then s2 else s1) + i)))])
                      [0..<4])
      | Vec4Mov \<Rightarrow>
          Map4DirtyIn d s1 #
          concat (map (\<lambda>i. [Host (FMV32 (R (d + i)) (R (s1 + i)))]) [0..<4])
      | _ \<Rightarrow> INVALIDOP inst)"

section \<open>CompIR_VecArith\<close>

definition CompIR_VecArith :: "(nat \<Rightarrow> RiscVReg) \<Rightarrow> IRInst \<Rightarrow> Action list" where
  "CompIR_VecArith R inst =
     (let d = unat (dest inst); s1 = unat (src1 inst); s2 = unat (src2 inst) in
      case op inst of
        Vec4Add \<Rightarrow>
          Map4DirtyInIn d s1 s2 #
          concat (map (\<lambda>i. [Host (FADD32 (R (d + i)) (R (s1 + i)) (R (s2 + i)))]) [0..<4])
      | Vec4Sub \<Rightarrow>
          Map4DirtyInIn d s1 s2 #
          concat (map (\<lambda>i. [Host (FSUB32 (R (d + i)) (R (s1 + i)) (R (s2 + i)))]) [0..<4])
      | Vec4Mul \<Rightarrow>
          Map4DirtyInIn d s1 s2 #
          concat (map (\<lambda>i. [Host (FMUL32 (R (d + i)) (R (s1 + i)) (R (s2 + i)))]) [0..<4])
      | Vec4Div \<Rightarrow>
          Map4DirtyInIn d s1 s2 #
          concat (map (\<lambda>i. [Host (FDIV32 (R (d + i)) (R (s1 + i)) (R (s2 + i)))]) [0..<4])
      | Vec4Scale \<Rightarrow>
          [SpillLock s2, MapReg s2 INIT, Map4DirtyIn d s1, ReleaseSpillLock s2] @
          concat (map (\<lambda>i. [Host (FMUL32 (R (d + i)) (R (s1 + i)) (R s2))]) [0..<4])
      | Vec4Neg \<Rightarrow>
          Map4DirtyIn d s1 #
          concat (map (\<lambda>i. [Host (FNEG32 (R (d + i)) (R (s1 + i)))]) [0..<4])
      | Vec4Abs \<Rightarrow>
          Map4DirtyIn d s1 #
          concat (map (\<lambda>i. [Host (FABS32 (R (d + i)) (R (s1 + i)))]) [0..<4])
      | _ \<Rightarrow> INVALIDOP inst)"

section \<open>CompIR_VecHoriz\<close>

definition CompIR_VecHoriz :: "(nat \<Rightarrow> RiscVReg) \<Rightarrow> IRInst \<Rightarrow> Action list" where
  "CompIR_VecHoriz R inst =
     (let d = unat (dest inst); s1 = unat (src1 inst); s2 = unat (src2 inst) in
      case op inst of
        Vec4Dot \<Rightarrow>
          SpillLock d #
          concat (map (\<lambda>i. [SpillLock (s1 + i), SpillLock (s2 + i)]) [0..<4]) @
          concat (map (\<lambda>i. [MapReg (s1 + i) INIT, MapReg (s2 + i) INIT]) [0..<4]) @
          [MapReg d NOINIT] @
          concat (map (\<lambda>i. [ReleaseSpillLock (s1 + i), ReleaseSpillLock (s2 + i)]) [0..<4]) @
          [ReleaseSpillLock d] @
          (if (d < s1 + 4 \<and> d \<ge> s1) \<or> (d < s2 + 4 \<and> d \<ge> s2)
           then
             concat (map (\<lambda>i. if d = s1 + i \<or> d = s2 + i
                               then [Host (FMUL32 (R d) (R (s1 + i)) (R (s2 + i)))] else [])
                         [0..<4]) @
             concat (map (\<lambda>i. if d \<noteq> s1 + i \<and> d \<noteq> s2 + i
                               then [Host (FMADD32 (R d) (R (s1 + i)) (R (s2 + i)) (R d))] else [])
                         [0..<4])
           else
             Host (FMUL32 (R d) (R s1) (R s2)) #
             concat (map (\<lambda>i. [Host (FMADD32 (R d) (R (s1 + i)) (R (s2 + i)) (R d))]) [1..<4]))
      | _ \<Rightarrow> INVALIDOP inst)"

section \<open>CompIR_VecPack\<close>

text \<open>The width of the integer registers, a constant of the emitter.\<close>

definition XLEN :: nat where
  "XLEN = 64"

definition CompIR_VecPack :: "(nat \<Rightarrow> RiscVReg) \<Rightarrow> IRInst \<Rightarrow> Action list" where
  "CompIR_VecPack R inst =
     (let d = unat (dest inst); s1 = unat (src1 inst) in
      case op inst of
        Vec2Unpack16To31 \<Rightarrow> [CompIR_Generic inst]
      | Vec2Unpack16To32 \<Rightarrow> [CompIR_Generic inst]
      | Vec4Pack32To8 \<Rightarrow> [CompIR_Generic inst]
      | Vec2Pack31To16 \<Rightarrow> [CompIR_Generic inst]
      | Vec4Unpack8To32 \<Rightarrow>
          SpillLock s1 #
          concat (map (\<lambda>i. [SpillLock (d + i)]) [0..<4]) @
          [MapReg s1 INIT] @
          concat (map (\<lambda>i. [MapReg (d + i) NOINIT]) [0..<4]) @
          [ReleaseSpillLocksAndDiscardTemps] @
          Host (FMV_X_W SCRATCH2 (R s1)) #
          concat (map (\<lambda>i. (if i \<noteq> 0
                             then [Host (SRLI SCRATCH1 SCRATCH2 (i * 8)),
                                   Host (SLLI SCRATCH1 SCRATCH1 24)]
                             else [Host (SLLI SCRATCH1 SCRATCH2 24)]) @
                            [Host (FMV_W_X (R (d + i)) SCRATCH1)]) [0..<4])
      | Vec4DuplicateUpperBitsAndShift1 \<Rightarrow>
          Map4DirtyIn d s1 #
          concat (map (\<lambda>i. [Host (FMV_X_W SCRATCH1 (R (s1 + i))),
                             Host (SRLIW SCRATCH2 SCRATCH1 8),
                             Host (OR_X SCRATCH1 SCRATCH1 SCRATCH2),
                             Host (SRLIW SCRATCH2 SCRATCH1 16),
                             Host (OR_X SCRATCH1 SCRATCH1 SCRATCH2),
                             Host (SRLIW SCRATCH1 SCRATCH1 1),
                             Host (FMV_W_X (R (d + i)) SCRATCH1)]) [0..<4])
      | Vec4Pack31To8 \<Rightarrow>
          SpillLock d #
          concat (map (\<lambda>i. [SpillLock (s1 + i), MapReg (s1 + i) INIT]) [0..<4]) @
          [MapReg d NOINIT, ReleaseSpillLocksAndDiscardTemps] @
          concat (map (\<lambda>i. [Host (FMV_X_W SCRATCH1 (R (s1 + i))),
                             Host (SRLI SCRATCH1 SCRATCH1 23)] @
                            (if i = 0
                             then [Host (ANDI SCRATCH2 SCRATCH1 0xFF)]
                             else [Host (ANDI SCRATCH1 SCRATCH1 0xFF),
                                   Host (SLLI SCRATCH1 SCRATCH1 (8 * i)),
                                   Host (OR_X SCRATCH2 SCRATCH2 SCRATCH1)])) [0..<4]) @
          [Host (FMV_W_X (R d) SCRATCH2)]
      | Vec2Pack32To16 \<Rightarrow>
          [MapDirtyInIn d s1 (s1 + 1),
           Host (FMV_X_W SCRATCH1 (R s1)),
           Host (FMV_X_W SCRATCH2 (R (s1 + 1))),
           Host (SLLI SCRATCH1 SCRATCH1 (XLEN - 32)),
           Host (SRLI SCRATCH1 SCRATCH1 (XLEN - 16)),
           Host (SRLI SCRATCH2 SCRATCH2 16),
           Host (SLLI SCRATCH2 SCRATCH2 16),
           Host (OR_X SCRATCH1 SCRATCH1 SCRATCH2),
           Host (FMV_W_X (R d) SCRATCH1)]
      | _ \<Rightarrow> INVALIDOP inst)"

section \<open>CompIR_VecClamp\<close>

text \<open>\<open>zbb\<close> is the host capability \<^verbatim>\<open>cpu_info.RiscV_Zbb\<close>.\<close>

definition CompIR_VecClamp :: "bool \<Rightarrow> (nat \<Rightarrow> RiscVReg) \<Rightarrow> IRInst \<Rightarrow> Action list" where
  "CompIR_VecClamp zbb R inst =
     (let d = unat (dest inst); s1 = unat (src1 inst) in
      case op inst of
        Vec4ClampToZero \<Rightarrow>
          Map4DirtyIn d s1 #
          concat (map (\<lambda>i. [Host (FMV_X_W SCRATCH1 (R (s1 + i))),
                             Host (SRAIW SCRATCH2 SCRATCH1 31)] @
                            (if zbb
                             then [Host (ANDN SCRATCH1 SCRATCH1 SCRATCH2)]
                             else [Host (NOT_X SCRATCH2 SCRATCH2),
                                   Host (AND_X SCRATCH1 SCRATCH1 SCRATCH2)]) @
                            [Host (FMV_W_X (R (d + i)) SCRATCH1)]) [0..<4])
      | Vec2ClampToZero \<Rightarrow> [CompIR_Generic inst]
      | _ \<Rightarrow> INVALIDOP inst)"

section \<open>Reference functions and concrete inputs\<close>

text \<open>Clamp-to-zero on a 32-bit pattern: zero when the sign bit is set, unchanged otherwise.\<close>

definition clamp_to_zero :: "32 word \<Rightarrow> 32 word" where
  "clamp_to_zero x = (if bit x 31 then 0 else x)"

text \<open>The body of the loop of \<^verbatim>\<open>Vec4ClampToZero\<close> for one lane, as host instructions.\<close>

definition clamp_lane :: "bool \<Rightarrow> RiscVReg \<Rightarrow> RiscVReg \<Rightarrow> RiscVInst list" where
  "clamp_lane zbb rd rs =
     [FMV_X_W SCRATCH1 rs, SRAIW SCRATCH2 SCRATCH1 31] @
     (if zbb then [ANDN SCRATCH1 SCRATCH1 SCRATCH2]
      else [NOT_X SCRATCH2 SCRATCH2, AND_X SCRATCH1 SCRATCH1 SCRATCH2]) @
     [FMV_W_X rd SCRATCH1]"

text \<open>
  Concrete inputs for the closed theorems: an FPU that computes in the ring of 32-bit
  words (exact, associative and commutative), and the machine whose floating-point
  register \<open>F n\<close> holds the \<open>n\<close>-th element of a list.
\<close>

definition ring_fpu :: FPU where
  "ring_fpu = \<lparr>fadd = (\<lambda>a b. a + b), fsub = (\<lambda>a b. a - b), fmul = (\<lambda>a b. a * b),
                fdiv = (\<lambda>a b. a div b), fmadd = (\<lambda>a b c. a * b + c), fcvt_s_w = (\<lambda>a. a)\<rparr>"

definition machine_of :: "32 word list \<Rightarrow> machine" where
  "machine_of vs =
     \<lparr>xr = (\<lambda>_. 0),
      fr = (\<lambda>r. case r of F n \<Rightarrow> (if n < length vs then vs ! n else 0) | _ \<Rightarrow> 0)\<rparr>"

definition inst_of :: "IROp \<Rightarrow> 8 word \<Rightarrow> 8 word \<Rightarrow> 8 word \<Rightarrow> 32 word \<Rightarrow> IRInst" where
  "inst_of oper d a b c = \<lparr>op = oper, dest = d, src1 = a, src2 = b, constant_u32 = c\<rparr>"

text \<open>
  Reference functions for the 8-bit packing: byte \<open>i\<close> of a pattern; the pattern with a
  byte in bits 31..24 and zeros below; the pattern whose byte \<open>i\<close> is bits 30..23 of the
  \<open>i\<close>-th argument.
\<close>

definition byte_of :: "32 word \<Rightarrow> nat \<Rightarrow> 8 word" where
  "byte_of w i = ucast (drop_bit (i * 8) w)"

definition unpack8_lane :: "32 word \<Rightarrow> nat \<Rightarrow> 32 word" where
  "unpack8_lane x i = push_bit 24 (drop_bit (i * 8) x)"

definition pack31to8 :: "32 word \<Rightarrow> 32 word \<Rightarrow> 32 word \<Rightarrow> 32 word \<Rightarrow> 32 word" where
  "pack31to8 y0 y1 y2 y3 =
     take_bit 8 (drop_bit 23 y0) OR push_bit 8 (take_bit 8 (drop_bit 23 y1)) OR
     push_bit 16 (take_bit 8 (drop_bit 23 y2)) OR push_bit 24 (take_bit 8 (drop_bit 23 y3))"

text \<open>
  Reference function for \<^verbatim>\<open>Vec4DuplicateUpperBitsAndShift1\<close> on one lane: the pattern, or-ed
  with itself shifted right by 8, then by 16, and the whole shifted right by 1.
\<close>

definition dup_shift1 :: "32 word \<Rightarrow> 32 word" where
  "dup_shift1 y = drop_bit 1 ((y OR drop_bit 8 y) OR drop_bit 16 (y OR drop_bit 8 y))"

text \<open>
  For code made of \<^verbatim>\<open>FMV(32, ..)\<close> moves only: the register whose initial content ends up in
  register \<open>r\<close>.
\<close>

fun origin :: "RiscVInst list \<Rightarrow> RiscVReg \<Rightarrow> RiscVReg" where
  "origin [] r = r"
| "origin (FMV32 rd rs # is) r = (let x = origin is r in if x = rd then rs else x)"
| "origin (_ # is) r = origin is r"

text \<open>Moves between registers of a set \<open>U\<close>.\<close>

fun move_within :: "RiscVReg set \<Rightarrow> RiscVInst \<Rightarrow> bool" where
  "move_within U (FMV32 rd rs) = (rd \<in> U \<and> rs \<in> U)"
| "move_within U _ = False"

text \<open>
  Renaming of the registers of the moves, and the renaming that sends the lane register
  \<open>F j\<close> to \<open>R (d + j)\<close> and every other register to the temporary.
\<close>

fun rename_inst :: "(RiscVReg \<Rightarrow> RiscVReg) \<Rightarrow> RiscVInst \<Rightarrow> RiscVInst" where
  "rename_inst \<rho> (FMV32 rd rs) = FMV32 (\<rho> rd) (\<rho> rs)"
| "rename_inst \<rho> i = i"

fun rename_action :: "(RiscVReg \<Rightarrow> RiscVReg) \<Rightarrow> Action \<Rightarrow> Action" where
  "rename_action \<rho> (Host i) = Host (rename_inst \<rho> i)"
| "rename_action \<rho> a = a"

fun lane_reg :: "(nat \<Rightarrow> RiscVReg) \<Rightarrow> nat \<Rightarrow> RiscVReg \<Rightarrow> RiscVReg \<Rightarrow> RiscVReg" where
  "lane_reg R d tempReg (F j) = R (d + j)"
| "lane_reg R d tempReg _ = tempReg"

text \<open>
  The kinds of move of the in-place shuffle, relative to the temporary register: into the
  temporary, out of the temporary, or from lane to lane.
\<close>

datatype MoveKind = ToTemp | FromTemp | LaneMove | NoMove

fun move_kind :: "RiscVReg \<Rightarrow> RiscVInst \<Rightarrow> MoveKind" where
  "move_kind t (FMV32 rd rs) = (if rd = t then ToTemp else if rs = t then FromTemp else LaneMove)"
| "move_kind t _ = NoMove"

definition move_kinds :: "RiscVReg \<Rightarrow> Action list \<Rightarrow> MoveKind list" where
  "move_kinds t as = map (move_kind t) (host_code as)"

text \<open>The 256 values of the array \<^verbatim>\<open>goal\<close>.\<close>

definition all_goals :: "nat list list" where
  "all_goals = List.n_lists 4 [0..<4]"

definition lane_regs :: "RiscVReg set" where
  "lane_regs = {F 0, F 1, F 2, F 3, R_ZERO}"

text \<open>
  What is checked of the in-place code for one \<^verbatim>\<open>goal\<close>, on the lane registers \<open>F 0..F 3\<close>
  with \<open>R_ZERO\<close> standing for the temporary: the assertion holds, only host instructions
  are emitted, the code consists of moves
  among these five registers, lane \<open>i\<close> ends with the initial content of lane \<open>goal[i]\<close>,
  and the numbers of moves of each kind.
\<close>

fun is_host :: "Action \<Rightarrow> bool" where
  "is_host (Host _) = True"
| "is_host _ = False"

definition inplace_ok :: "nat list \<Rightarrow> bool" where
  "inplace_ok g =
     (let as = shuffle_inplace F 0 R_ZERO g; c = host_code as; ks = move_kinds R_ZERO as in
      AssertFailed \<notin> set as \<and> list_all is_host as \<and>
      list_all (move_within lane_regs) c \<and>
      list_all (\<lambda>i. origin c (F i) = F (g ! i)) [0..<4] \<and>
      length ks \<le> 6 \<and> count_list ks LaneMove \<le> 4 \<and> count_list ks ToTemp \<le> 2 \<and>
      count_list ks FromTemp = count_list ks ToTemp \<and> NoMove \<notin> set ks)"

text \<open>
  Reference functions for the dot product. \<open>lanes_of s R base\<close> reads the four lanes of a
  group from a state. \<open>alias_lane\<close> is the lane of a source group that the destination
  register is, and 0 when it is none. \<open>dot_fma\<close> is the product of lane \<open>k\<close> followed by the
  fused multiply-adds of the other lanes in lane order; \<open>dot_left_to_right\<close> is the sum of the
  four products, added from lane 0 to lane 3. \<open>fpu_exact\<close> says that the arithmetic does not
  round: a fused multiply-add is a product then a sum, and sums can be reordered.
\<close>

definition lanes_of :: "machine \<Rightarrow> (nat \<Rightarrow> RiscVReg) \<Rightarrow> nat \<Rightarrow> nat \<Rightarrow> 32 word" where
  "lanes_of s R base i = fr s (R (base + i))"

definition alias_lane :: "nat \<Rightarrow> nat \<Rightarrow> nat \<Rightarrow> nat" where
  "alias_lane d s1 s2 =
     (if s1 \<le> d \<and> d < s1 + 4 then d - s1 else if s2 \<le> d \<and> d < s2 + 4 then d - s2 else 0)"

definition dot_fma :: "FPU \<Rightarrow> (nat \<Rightarrow> 32 word) \<Rightarrow> (nat \<Rightarrow> 32 word) \<Rightarrow> nat \<Rightarrow> 32 word" where
  "dot_fma fpu a b k =
     foldl (\<lambda>acc i. fmadd fpu (a i) (b i) acc) (fmul fpu (a k) (b k))
           (filter (\<lambda>i. i \<noteq> k) [0..<4])"

definition dot_left_to_right :: "FPU \<Rightarrow> (nat \<Rightarrow> 32 word) \<Rightarrow> (nat \<Rightarrow> 32 word) \<Rightarrow> 32 word" where
  "dot_left_to_right fpu a b =
     fadd fpu (fadd fpu (fadd fpu (fmul fpu (a 0) (b 0)) (fmul fpu (a 1) (b 1)))
                        (fmul fpu (a 2) (b 2)))
              (fmul fpu (a 3) (b 3))"

definition fpu_exact :: "FPU \<Rightarrow> bool" where
  "fpu_exact fpu \<longleftrightarrow>
     (\<forall>a b c. fmadd fpu a b c = fadd fpu (fmul fpu a b) c) \<and>
     (\<forall>a b. fadd fpu a b = fadd fpu b a) \<and>
     (\<forall>a b c. fadd fpu (fadd fpu a b) c = fadd fpu a (fadd fpu b c))"

text \<open>
  Order of the register-cache calls of one instruction. \<open>locks_before_maps\<close>: no
  \<^verbatim>\<open>SpillLock\<close> call comes after a mapping call. \<open>mapped_locked L M\<close>, with \<open>L\<close> the registers
  spill-locked so far and \<open>M\<close> the registers mapped so far by \<^verbatim>\<open>MapReg\<close>: every \<^verbatim>\<open>MapReg\<close> is of
  a register that is locked at that call, and at every mapping call the registers mapped
  earlier are all still locked.
\<close>

fun is_lock :: "Action \<Rightarrow> bool" where
  "is_lock (SpillLock _) = True"
| "is_lock _ = False"

fun is_map :: "Action \<Rightarrow> bool" where
  "is_map (MapReg _ _) = True"
| "is_map (Map4DirtyIn _ _) = True"
| "is_map (Map4DirtyInIn _ _ _) = True"
| "is_map (Map4DirtyInTemp _ _) = True"
| "is_map (MapDirtyInIn _ _ _) = True"
| "is_map _ = False"

definition locks_before_maps :: "Action list \<Rightarrow> bool" where
  "locks_before_maps as = list_all (\<lambda>a. \<not> is_lock a) (dropWhile (\<lambda>a. \<not> is_map a) as)"

fun mapped_locked :: "nat set \<Rightarrow> nat set \<Rightarrow> Action list \<Rightarrow> bool" where
  "mapped_locked L M [] = True"
| "mapped_locked L M (SpillLock r # as) = mapped_locked (insert r L) M as"
| "mapped_locked L M (ReleaseSpillLock r # as) = mapped_locked (L - {r}) M as"
| "mapped_locked L M (ReleaseSpillLocksAndDiscardTemps # as) = mapped_locked {} M as"
| "mapped_locked L M (MapReg r h # as) = (r \<in> L \<and> M \<subseteq> L \<and> mapped_locked L (insert r M) as)"
| "mapped_locked L M (Map4DirtyIn d a # as) = (M \<subseteq> L \<and> mapped_locked L M as)"
| "mapped_locked L M (Map4DirtyInIn d a b # as) = (M \<subseteq> L \<and> mapped_locked L M as)"
| "mapped_locked L M (Map4DirtyInTemp d a # as) = (M \<subseteq> L \<and> mapped_locked L M as)"
| "mapped_locked L M (MapDirtyInIn d a b # as) = (M \<subseteq> L \<and> mapped_locked L M as)"
| "mapped_locked L M (_ # as) = mapped_locked L M as"

text \<open>
  Modelled from the spec: the macros \<^verbatim>\<open>_assert_\<close> and \<^verbatim>\<open>_assert_msg_\<close> are declared outside the
  source files; by the spec a failed assertion is fatal in debug builds, and in release
  builds execution goes on. \<open>performed fatal as\<close> is the part of the calls \<open>as\<close> that is
  performed: all of them, or those up to the first failed assertion when it is fatal.
\<close>

fun performed :: "bool \<Rightarrow> Action list \<Rightarrow> Action list" where
  "performed fatal [] = []"
| "performed fatal (AssertFailed # as) =
     (if fatal then [AssertFailed] else AssertFailed # performed fatal as)"
| "performed fatal (a # as) = a # performed fatal as"

fun is_generic :: "Action \<Rightarrow> bool" where
  "is_generic (CompIR_Generic _) = True"
| "is_generic _ = False"

text \<open>
  The three outcomes of a routine on an instruction, by its opcode: the routine's own
  case (\<open>native\<close>: no generic call and no failed assertion), the cases that call the generic
  compiler (\<open>generic\<close>: that call and nothing else), and the default branch
  (\<^verbatim>\<open>INVALIDOP\<close>: the failed assertion, then the generic call when the assertion is not fatal).
\<close>

definition outcome :: "bool \<Rightarrow> IROp set \<Rightarrow> IROp set \<Rightarrow> IRInst \<Rightarrow> Action list \<Rightarrow> bool" where
  "outcome fatal native generic inst as =
     (if op inst \<in> native
      then performed fatal as = as \<and> list_all (\<lambda>a. \<not> is_generic a \<and> a \<noteq> AssertFailed) as
      else if op inst \<in> generic
      then performed fatal as = [CompIR_Generic inst]
      else performed fatal as =
             (if fatal then [AssertFailed] else [AssertFailed, CompIR_Generic inst]))"

section \<open>Execution lemmas\<close>

lemma upt4: "[0..<4] = [0, 1, 2, 3]"
  by (simp add: upt_rec)

lemma upt14: "[1..<4] = [1, 2, 3]"
  by (simp add: upt_rec)

lemma upt_Suc0_4: "[Suc 0..<4] = [1, 2, 3]"
  by (simp add: upt_rec)

lemma host_code_append: "host_code (xs @ ys) = host_code xs @ host_code ys"
  by (induction xs rule: host_code.induct) simp_all

lemma exec_append: "exec fpu (xs @ ys) s = exec fpu ys (exec fpu xs s)"
  by (induction xs arbitrary: s) simp_all

lemma exec_concat_map: "exec fpu (concat (map f xs)) s = foldl (\<lambda>s i. exec fpu (f i) s) s xs"
  by (induction xs arbitrary: s) (simp_all add: exec_append)

lemma fr_setf: "fr (setf r v s) = (fr s)(r := v)"
  by (simp add: setf_def)

lemma fr_setx: "fr (setx r v s) = fr s"
  by (simp add: setx_def)

lemma xr_setf: "xr (setf r v s) = xr s"
  by (simp add: setf_def)

lemma getx_setx:
  "getx (setx r v s) q = (if q = R_ZERO then 0 else if q = r then v else getx s q)"
  by (simp add: getx_def setx_def)

lemma getx_setf: "getx (setf r v s) q = getx s q"
  by (simp add: getx_def setf_def)

section \<open>Words\<close>

lemma low32_sext32: "low32 (sext32 x) = x"
  unfolding low32_def sext32_def
  by (rule bit_word_eqI) (simp add: bit_simps)

lemma low32_0: "low32 0 = 0"
  by (simp add: low32_def)

lemma sext32_minus1: "sext32 (- 1) = - 1"
  unfolding sext32_def by simp

lemma sext32_0: "sext32 0 = 0"
  unfolding sext32_def by simp

lemma sra31: "signed_drop_bit 31 (x :: 32 word) = (if bit x 31 then - 1 else 0)"
proof (rule bit_word_eqI)
  fix n assume n: "n < LENGTH(32)"
  have "bit x (31 + n) \<longleftrightarrow> n = 0 \<and> bit x 31"
    by (cases n) (auto dest: bit_imp_le_length)
  then show "bit (signed_drop_bit 31 x) n = bit (if bit x 31 then - 1 else 0 :: 32 word) n"
    using n by (auto simp add: bit_signed_drop_bit_iff)
qed

lemma clamp_word: "low32 (sext32 x AND NOT (sext32 (signed_drop_bit 31 x))) = clamp_to_zero x"
  by (simp add: sra31 clamp_to_zero_def sext32_minus1 sext32_0 low32_sext32 low32_0)

section \<open>Lane registers\<close>

lemma fold_upd_distinct:
  "distinct (map fst kvs) \<Longrightarrow> (k, v) \<in> set kvs \<Longrightarrow> foldl (\<lambda>f (a, v). f(a := v)) f0 kvs k = v"
proof (induction kvs rule: rev_induct)
  case Nil
  then show ?case by simp
next
  case (snoc kv kvs)
  obtain a b where kv: "kv = (a, b)" by (cases kv)
  show ?case
  proof (cases "k = a")
    case True
    with snoc.prems kv have "v = b" by force
    then show ?thesis using True kv by simp
  next
    case False
    with snoc kv show ?thesis by auto
  qed
qed

lemma lanes_distinct:
  assumes "inj_on R {d..<d + 4}"
  shows "distinct (map (\<lambda>i. R (d + i)) [0..<4])"
proof -
  have "inj_on (\<lambda>i. R (d + i)) (set [0..<4])"
  proof (rule inj_onI)
    fix x y assume "x \<in> set [0..<4]" and "y \<in> set [0..<4]" and "R (d + x) = R (d + y)"
    then have "d + x = d + y"
      using inj_onD [OF assms, of "d + x" "d + y"] by simp
    then show "x = y" by simp
  qed
  then show ?thesis by (simp add: distinct_map)
qed

lemma lanes_assigned:
  assumes "inj_on R {d..<d + 4}" and "i < 4"
  shows "foldl (\<lambda>f j. f(R (d + j) := v j)) f0 [0..<4] (R (d + i)) = v i"
proof -
  have "foldl (\<lambda>f j. f(R (d + j) := v j)) f0 [0..<4] =
        foldl (\<lambda>f (a, v). f(a := v)) f0 (map (\<lambda>j. (R (d + j), v j)) [0..<4])"
    by (simp add: foldl_map)
  moreover have "distinct (map fst (map (\<lambda>j. (R (d + j), v j)) [0..<4]))"
    using lanes_distinct [OF assms(1)] by (simp add: comp_def)
  moreover have "(R (d + i), v i) \<in> set (map (\<lambda>j. (R (d + j), v j)) [0..<4])"
    using assms(2) by auto
  ultimately show ?thesis
    using fold_upd_distinct by metis
qed

lemma moves_frame:
  "r \<notin> dst ` {0..<n} \<Longrightarrow>
   fr (exec fpu (map (\<lambda>i. FMV32 (dst i) (src i)) [0..<n]) s) r = fr s r"
proof (induction n)
  case 0
  show ?case by simp
next
  case (Suc n)
  then have "r \<notin> dst ` {0..<n}" and "r \<noteq> dst n" by auto
  with Suc.IH show ?case by (simp add: exec_append fr_setf)
qed

text \<open>
  A run of moves \<open>dst i := src i\<close> for \<open>i = 0 .. n - 1\<close>: when the destinations are distinct
  and no destination is the source of a later move, every destination ends with the initial
  content of its source.
\<close>

lemma moves_lanewise:
  assumes "distinct (map dst [0..<n])"
    and "\<And>i j. i < j \<Longrightarrow> j < n \<Longrightarrow> dst i \<noteq> src j"
    and "j < n"
  shows "fr (exec fpu (map (\<lambda>i. FMV32 (dst i) (src i)) [0..<n]) s) (dst j) = fr s (src j)"
  using assms
proof (induction n)
  case 0
  then show ?case by simp
next
  case (Suc n)
  let ?s = "exec fpu (map (\<lambda>i. FMV32 (dst i) (src i)) [0..<n]) s"
  have d: "distinct (map dst [0..<n])" and dn: "dst n \<notin> dst ` {0..<n}"
    using Suc.prems(1) by auto
  show ?case
  proof (cases "j = n")
    case True
    have "src n \<notin> dst ` {0..<n}"
    proof
      assume "src n \<in> dst ` {0..<n}"
      then obtain i where "i < n" and "src n = dst i" by auto
      with Suc.prems(2) [of i n] show False by simp
    qed
    then have "fr ?s (src n) = fr s (src n)" by (rule moves_frame)
    with True show ?thesis by (simp add: exec_append fr_setf)
  next
    case False
    with Suc.prems(3) have j: "j < n" by simp
    have ne: "dst j \<noteq> dst n"
    proof
      assume "dst j = dst n"
      moreover have "dst j \<in> dst ` {0..<n}" using j by (intro imageI) simp
      ultimately show False using dn by simp
    qed
    have "fr ?s (dst j) = fr s (src j)"
      using Suc.IH [OF d _ j] Suc.prems(2) by simp
    with ne show ?thesis by (simp add: exec_append fr_setf)
  qed
qed

lemma inj_on_lanes_neq:
  "inj_on R A \<Longrightarrow> x \<in> A \<Longrightarrow> y \<in> A \<Longrightarrow> x \<noteq> y \<Longrightarrow> R x \<noteq> R y"
  by (auto dest: inj_onD)

section \<open>The in-place shuffle on the 256 goals\<close>

lemma all_goals_ok: "list_all inplace_ok all_goals"
  by code_simp

lemma goal_in_all_goals:
  "a < 4 \<Longrightarrow> b < 4 \<Longrightarrow> c < 4 \<Longrightarrow> e < 4 \<Longrightarrow> [a, b, c, e] \<in> set all_goals"
  by (simp add: all_goals_def set_n_lists)

lemma inplace_ok_goal:
  "a < 4 \<Longrightarrow> b < 4 \<Longrightarrow> c < 4 \<Longrightarrow> e < 4 \<Longrightarrow> inplace_ok [a, b, c, e]"
  using all_goals_ok goal_in_all_goals [of a b c e] by (simp add: list_all_iff)

section \<open>The in-place code for any register assignment is a renaming of the code on lanes\<close>

lemma moveChained_rename2:
  "moveChained R d t [a, b] rot (st, map (rename_action (lane_reg R d t)) out) =
     (case moveChained F 0 R_ZERO [a, b] rot (st, out) of
        (st', out') \<Rightarrow> (st', map (rename_action (lane_reg R d t)) out'))"
  by (cases rot) (simp_all add: moveChained_def upt_rec)

lemma moveChained_rename3:
  "moveChained R d t [a, b, c] rot (st, map (rename_action (lane_reg R d t)) out) =
     (case moveChained F 0 R_ZERO [a, b, c] rot (st, out) of
        (st', out') \<Rightarrow> (st', map (rename_action (lane_reg R d t)) out'))"
  by (cases rot) (simp_all add: moveChained_def upt_rec)

lemma moveChained_rename4:
  "moveChained R d t [a, b, c, e] rot (st, map (rename_action (lane_reg R d t)) out) =
     (case moveChained F 0 R_ZERO [a, b, c, e] rot (st, out) of
        (st', out') \<Rightarrow> (st', map (rename_action (lane_reg R d t)) out'))"
  by (cases rot) (simp_all add: moveChained_def upt_rec)

lemma shuffle_step_rename:
  "shuffle_step R d t goal (st, map (rename_action (lane_reg R d t)) out, ok) i =
     (case shuffle_step F 0 R_ZERO goal (st, out, ok) i of
        (st', out', ok') \<Rightarrow> (st', map (rename_action (lane_reg R d t)) out', ok'))"
  by (simp add: shuffle_step_def Let_def moveChained_rename2 moveChained_rename3
        moveChained_rename4 split: prod.splits)

lemma shuffle_fold_rename:
  "foldl (shuffle_step R d t goal) (st, map (rename_action (lane_reg R d t)) out, ok) xs =
     (case foldl (shuffle_step F 0 R_ZERO goal) (st, out, ok) xs of
        (st', out', ok') \<Rightarrow> (st', map (rename_action (lane_reg R d t)) out', ok'))"
proof (induction xs arbitrary: st out ok)
  case Nil
  show ?case by simp
next
  case (Cons x xs)
  obtain st1 out1 ok1 where s: "shuffle_step F 0 R_ZERO goal (st, out, ok) x = (st1, out1, ok1)"
    by (cases "shuffle_step F 0 R_ZERO goal (st, out, ok) x") auto
  show ?case
    by (simp add: shuffle_step_rename s Cons.IH)
qed

lemma shuffle_inplace_rename:
  "shuffle_inplace R d t goal =
     map (rename_action (lane_reg R d t)) (shuffle_inplace F 0 R_ZERO goal)"
proof -
  have L: "fst (snd (case p of (a, b, c) \<Rightarrow> (a, map g b, c))) = map g (fst (snd p))"
    for p :: "nat list \<times> Action list \<times> bool" and g :: "Action \<Rightarrow> Action"
    by (cases p) simp
  have "foldl (shuffle_step R d t goal) ([0, 1, 2, 3], [], True) [0..<4] =
        (case foldl (shuffle_step F 0 R_ZERO goal) ([0, 1, 2, 3], [], True) [0..<4] of
           (st', out', ok') \<Rightarrow> (st', map (rename_action (lane_reg R d t)) out', ok'))"
    using shuffle_fold_rename [of R d t goal "[0, 1, 2, 3]" "[]" True "[0..<4]"]
    by (simp only: list.map)
  then show ?thesis
    unfolding shuffle_inplace_def by (simp only: L)
qed

lemma host_code_rename:
  "host_code (map (rename_action \<rho>) as) = map (rename_inst \<rho>) (host_code as)"
  by (induction as rule: host_code.induct) simp_all

lemma AssertFailed_rename:
  "AssertFailed \<in> set (map (rename_action \<rho>) as) \<longleftrightarrow> AssertFailed \<in> set as"
proof (induction as)
  case Nil
  show ?case by simp
next
  case (Cons a as)
  then show ?case by (cases a) auto
qed

section \<open>Moves and where register contents come from\<close>

lemma exec_moves_origin:
  "list_all (move_within U) c \<Longrightarrow> fr (exec fpu c s) r = fr s (origin c r)"
proof (induction c arbitrary: s)
  case Nil
  show ?case by simp
next
  case (Cons i c)
  then show ?case
    by (cases i) (simp_all add: fr_setf Let_def)
qed

lemma origin_within:
  "list_all (move_within U) c \<Longrightarrow> r \<in> U \<Longrightarrow> origin c r \<in> U"
proof (induction c)
  case Nil
  then show ?case by simp
next
  case (Cons i c)
  then show ?case
    by (cases i) (simp_all add: Let_def)
qed

lemma origin_rename:
  assumes "inj_on \<rho> U"
  shows "list_all (move_within U) c \<Longrightarrow> r \<in> U \<Longrightarrow>
         origin (map (rename_inst \<rho>) c) (\<rho> r) = \<rho> (origin c r)"
proof (induction c)
  case Nil
  show ?case by simp
next
  case (Cons i c)
  show ?case
  proof (cases i)
    case (FMV32 rd rs)
    with Cons.prems have c: "list_all (move_within U) c" and rd: "rd \<in> U" by simp_all
    have o: "origin c r \<in> U" using origin_within [OF c Cons.prems(2)] .
    have "(\<rho> (origin c r) = \<rho> rd) = (origin c r = rd)"
      using inj_on_eq_iff [OF assms o rd] .
    then show ?thesis
      using FMV32 Cons.IH [OF c Cons.prems(2)] by (simp add: Let_def)
  qed (use Cons.prems in simp_all)
qed

lemma moves_rename_within:
  "list_all (move_within U) c \<Longrightarrow> list_all (move_within (\<rho> ` U)) (map (rename_inst \<rho>) c)"
proof (induction c)
  case Nil
  show ?case by simp
next
  case (Cons i c)
  then show ?case by (cases i) simp_all
qed

section \<open>Vec4Shuffle\<close>

lemma shuffle_lane_less: "shuffle_lane imm i < 4"
proof -
  have "drop_bit (i * 2) imm AND 3 = take_bit 2 (drop_bit (i * 2) imm)"
    by (simp add: take_bit_eq_mask mask_eq_exp_minus_1)
  then have "shuffle_lane imm i = take_bit 2 (unat (drop_bit (i * 2) imm))"
    by (simp add: shuffle_lane_def unsigned_take_bit_eq)
  then show ?thesis
    using take_bit_nat_less_exp [of 2 "unat (drop_bit (i * 2) imm)"] by simp
qed

lemma lane_reg_inj:
  assumes "inj_on R {d..<d + 4}" and "t \<notin> R ` {d..<d + 4}"
  shows "inj_on (lane_reg R d t) lane_regs"
proof (rule inj_onI)
  fix x y assume x: "x \<in> lane_regs" and y: "y \<in> lane_regs"
    and e: "lane_reg R d t x = lane_reg R d t y"
  have l: "lane_reg R d t (F j) \<noteq> t" if "j < 4" for j
    using assms(2) that by auto
  have m: "lane_reg R d t (F j) = lane_reg R d t (F k) \<Longrightarrow> j = k" if "j < 4" "k < 4" for j k
    using inj_onD [OF assms(1), of "d + j" "d + k"] that by simp
  have c: "(\<exists>j<4. z = F j) \<or> z = R_ZERO" if "z \<in> lane_regs" for z
    using that unfolding lane_regs_def by auto
  from c [OF x] c [OF y] show "x = y"
  proof (elim disjE exE conjE)
    fix j k assume "j < 4" "x = F j" "k < 4" "y = F k"
    with e m [of j k] show ?thesis by simp
  next
    fix j assume "j < 4" "x = F j" "y = R_ZERO"
    with e l [of j] show ?thesis by simp
  next
    fix k assume "x = R_ZERO" "k < 4" "y = F k"
    with e l [of k] show ?thesis by simp
  next
    assume "x = R_ZERO" "y = R_ZERO"
    then show ?thesis by simp
  qed
qed

section \<open>Vec4Shuffle: lane values\<close>

lemma inplace_lane_value:
  assumes inj: "inj_on R {d..<d + 4}" and t: "t \<notin> R ` {d..<d + 4}"
    and g: "a < 4" "b < 4" "c < 4" "e < 4" and i: "i < 4"
  shows "fr (exec fpu (host_code (shuffle_inplace R d t [a, b, c, e])) s) (R (d + i)) =
           fr s (R (d + [a, b, c, e] ! i))"
proof -
  let ?r = "lane_reg R d t" and ?c = "host_code (shuffle_inplace F 0 R_ZERO [a, b, c, e])"
  from inplace_ok_goal [OF g]
  have w: "list_all (move_within lane_regs) ?c"
    and o: "list_all (\<lambda>i. origin ?c (F i) = F ([a, b, c, e] ! i)) [0..<4]"
    by (simp_all add: inplace_ok_def Let_def)
  have oi: "origin ?c (F i) = F ([a, b, c, e] ! i)"
    using o i by (simp add: list_all_iff)
  from i consider "i = 0" | "i = 1" | "i = 2" | "i = 3" by linarith
  then have Fi: "F i \<in> lane_regs"
    by cases (simp_all add: lane_regs_def)
  have code: "host_code (shuffle_inplace R d t [a, b, c, e]) = map (rename_inst ?r) ?c"
    by (simp only: shuffle_inplace_rename [of R d t] host_code_rename)
  have "fr (exec fpu (map (rename_inst ?r) ?c) s) (?r (F i)) =
          fr s (origin (map (rename_inst ?r) ?c) (?r (F i)))"
    by (rule exec_moves_origin [OF moves_rename_within [OF w]])
  also have "origin (map (rename_inst ?r) ?c) (?r (F i)) = ?r (origin ?c (F i))"
    by (rule origin_rename [OF lane_reg_inj [OF inj t] w Fi])
  finally show ?thesis
    by (simp only: code oi lane_reg.simps)
qed

lemma inplace_no_assert:
  assumes "a < 4" "b < 4" "c < 4" "e < 4"
  shows "AssertFailed \<notin> set (shuffle_inplace R d t [a, b, c, e])"
proof -
  from inplace_ok_goal [OF assms]
  have "AssertFailed \<notin> set (shuffle_inplace F 0 R_ZERO [a, b, c, e])"
    by (simp add: inplace_ok_def Let_def)
  then show ?thesis
    by (simp only: shuffle_inplace_rename [of R d t] AssertFailed_rename not_False_eq_True)
qed

lemma groups_disjoint_neq:
  fixes d a i k :: nat
  assumes "inj_on R ({d..<d + 4} \<union> {a..<a + 4})" and "d + 4 \<le> a \<or> a + 4 \<le> d"
    and "i < 4" and "k < 4"
  shows "R (d + i) \<noteq> R (a + k)"
  by (rule inj_on_lanes_neq [OF assms(1)]) (use assms(2,3,4) in auto)

lemma shuffle_code_inplace:
  "op inst = Vec4Shuffle \<Longrightarrow> dest inst = src1 inst \<Longrightarrow>
   CompIR_VecAssign R t inst =
     Map4DirtyInTemp (unat (dest inst)) (unat (src1 inst)) #
     shuffle_inplace R (unat (dest inst)) t
       [shuffle_lane (src2 inst) 0, shuffle_lane (src2 inst) 1,
        shuffle_lane (src2 inst) 2, shuffle_lane (src2 inst) 3]"
  by (simp add: CompIR_VecAssign_def Let_def upt4)

lemma shuffle_code_outofplace:
  "op inst = Vec4Shuffle \<Longrightarrow> dest inst \<noteq> src1 inst \<Longrightarrow>
   host_code (CompIR_VecAssign R t inst) =
     map (\<lambda>i. FMV32 (R (unat (dest inst) + i)) (R (unat (src1 inst) + shuffle_lane (src2 inst) i)))
         [0..<4]"
  by (simp add: CompIR_VecAssign_def Let_def upt4)

lemma shuffle_outofplace_no_assert:
  "op inst = Vec4Shuffle \<Longrightarrow> dest inst \<noteq> src1 inst \<Longrightarrow>
   AssertFailed \<notin> set (CompIR_VecAssign R t inst)"
  by (simp add: CompIR_VecAssign_def Let_def upt4)

lemma nth_lanes4: "i < 4 \<Longrightarrow> [f 0, f 1, f 2, f (3 :: nat)] ! i = f i"
proof -
  assume "i < 4"
  then consider "i = 0" | "i = 1" | "i = 2" | "i = 3" by linarith
  then show ?thesis by cases simp_all
qed

text \<open>
  C1 (as amended). For every \<^verbatim>\<open>Vec4Shuffle\<close> instruction whose destination group is the source
  group (in place) or does not overlap it (out of place), for every selection immediate and
  with the lanes in distinct host registers and the temporary outside the destination's:
  after the emitted code, destination lane \<open>i\<close> holds the initial content of source lane
  \<open>(imm >> 2 i) & 3\<close>, and the routine's assertion does not fail.
\<close>

theorem C1_shuffle_lanes:
  assumes "op inst = Vec4Shuffle"
    and "dest inst = src1 inst \<or> unat (dest inst) + 4 \<le> unat (src1 inst)
         \<or> unat (src1 inst) + 4 \<le> unat (dest inst)"
    and "inj_on R ({unat (dest inst)..<unat (dest inst) + 4} \<union>
                   {unat (src1 inst)..<unat (src1 inst) + 4})"
    and "tempReg \<notin> R ` {unat (dest inst)..<unat (dest inst) + 4}"
    and "i < 4"
  shows "fr (exec fpu (host_code (CompIR_VecAssign R tempReg inst)) s) (R (unat (dest inst) + i)) =
           fr s (R (unat (src1 inst) + shuffle_lane (src2 inst) i))
         \<and> AssertFailed \<notin> set (CompIR_VecAssign R tempReg inst)"
proof (cases "dest inst = src1 inst")
  case True
  let ?d = "unat (dest inst)" and ?l = "shuffle_lane (src2 inst)"
  have inj: "inj_on R {?d..<?d + 4}"
    using assms(3) by (rule inj_on_subset) simp
  have "fr (exec fpu (host_code (shuffle_inplace R ?d tempReg [?l 0, ?l 1, ?l 2, ?l 3])) s)
           (R (?d + i)) = fr s (R (?d + [?l 0, ?l 1, ?l 2, ?l 3] ! i))"
    by (rule inplace_lane_value [OF inj assms(4) _ _ _ _ assms(5)]) (rule shuffle_lane_less)+
  then have "fr (exec fpu (host_code (shuffle_inplace R ?d tempReg [?l 0, ?l 1, ?l 2, ?l 3])) s)
           (R (?d + i)) = fr s (R (?d + ?l i))"
    by (simp only: nth_lanes4 [OF assms(5)])
  moreover have "AssertFailed \<notin> set (shuffle_inplace R ?d tempReg [?l 0, ?l 1, ?l 2, ?l 3])"
    by (rule inplace_no_assert) (rule shuffle_lane_less)+
  ultimately show ?thesis
    using True by (simp add: shuffle_code_inplace [OF assms(1) True])
next
  case False
  let ?d = "unat (dest inst)" and ?a = "unat (src1 inst)" and ?l = "shuffle_lane (src2 inst)"
  from False assms(2) have dis: "?d + 4 \<le> ?a \<or> ?a + 4 \<le> ?d" by simp
  have inj: "inj_on R {?d..<?d + 4}"
    using assms(3) by (rule inj_on_subset) simp
  have "fr (exec fpu (map (\<lambda>i. FMV32 (R (?d + i)) (R (?a + ?l i))) [0..<4]) s) (R (?d + i)) =
          fr s (R (?a + ?l i))"
  proof (rule moves_lanewise [where dst = "\<lambda>i. R (?d + i)"])
    show "distinct (map (\<lambda>i. R (?d + i)) [0..<4])" by (rule lanes_distinct [OF inj])
    show "R (?d + j) \<noteq> R (?a + ?l k)" if "j < k" "k < 4" for j k
      by (rule groups_disjoint_neq [OF assms(3) dis]) (use that shuffle_lane_less in simp_all)
    show "i < 4" by (rule assms(5))
  qed
  then show ?thesis
    by (simp only: shuffle_code_outofplace [OF assms(1) False]
          shuffle_outofplace_no_assert [OF assms(1) False] not_False_eq_True simp_thms)
qed

theorem C1_shuffle_lanes_witness:
  "op (inst_of Vec4Shuffle 0 0 0x1B 0) = Vec4Shuffle \<and>
   dest (inst_of Vec4Shuffle 0 0 0x1B 0) = src1 (inst_of Vec4Shuffle 0 0 0x1B 0) \<and>
   inj_on F {0..<4} \<and> F 4 \<notin> F ` {0..<4} \<and>
   map (fr (exec ring_fpu (host_code (CompIR_VecAssign F (F 4) (inst_of Vec4Shuffle 0 0 0x1B 0)))
              (machine_of [0x3F800000, 0x40000000, 0x40400000, 0x40800000])))
       [F 0, F 1, F 2, F 3]
     = [0x40800000, 0x40400000, 0x40000000, 0x3F800000]"
proof -
  let ?I = "inst_of Vec4Shuffle 0 0 0x1B 0"
  let ?s = "machine_of [0x3F800000, 0x40000000, 0x40400000, 0x40800000]"
  have a: "op ?I = Vec4Shuffle" and b': "dest ?I = src1 ?I"
    and d0: "unat (dest ?I) = 0" and s0: "unat (src1 ?I) = 0"
    by (simp_all add: inst_of_def)
  have b: "dest ?I = src1 ?I \<or> unat (dest ?I) + 4 \<le> unat (src1 ?I)
           \<or> unat (src1 ?I) + 4 \<le> unat (dest ?I)"
    using b' by simp
  have c': "inj_on F {0..<4}" by (simp add: inj_on_def)
  have c: "inj_on F ({unat (dest ?I)..<unat (dest ?I) + 4} \<union>
                     {unat (src1 ?I)..<unat (src1 ?I) + 4})"
    by (simp add: inj_on_def)
  have e': "F 4 \<notin> F ` {0..<4}" by auto
  have e: "F 4 \<notin> F ` {unat (dest ?I)..<unat (dest ?I) + 4}"
    unfolding d0 using e' by simp
  have l: "shuffle_lane (src2 ?I) 0 = 3" "shuffle_lane (src2 ?I) 1 = 2"
    "shuffle_lane (src2 ?I) 2 = 1" "shuffle_lane (src2 ?I) 3 = 0"
    by code_simp+
  have v: "fr (exec ring_fpu (host_code (CompIR_VecAssign F (F 4) ?I)) ?s) (F i) =
             fr ?s (F (shuffle_lane (src2 ?I) i))" if "i < 4" for i
    using C1_shuffle_lanes [OF a b c e that, of ring_fpu ?s] by (simp only: d0 s0 add_0)
  have "fr (exec ring_fpu (host_code (CompIR_VecAssign F (F 4) ?I)) ?s) (F 0) = 0x40800000"
    "fr (exec ring_fpu (host_code (CompIR_VecAssign F (F 4) ?I)) ?s) (F 1) = 0x40400000"
    "fr (exec ring_fpu (host_code (CompIR_VecAssign F (F 4) ?I)) ?s) (F 2) = 0x40000000"
    "fr (exec ring_fpu (host_code (CompIR_VecAssign F (F 4) ?I)) ?s) (F 3) = 0x3F800000"
    by (simp_all only: v l) (simp_all add: machine_of_def)
  then show ?thesis
    using a b' c' e' by (simp only: list.map simp_thms)
qed

text \<open>
  C1 as stated fails when the two groups differ but overlap: with destination lanes in
  \<open>F 1..F 4\<close>, source lanes in \<open>F 0..F 3\<close> and the immediate selecting lanes \<open>(0, 1, 1, 1)\<close>,
  destination lane 1 does not receive the initial content of source lane 1.
\<close>

theorem C1_shuffle_overlap_counterexample:
  "fr (exec ring_fpu (host_code (CompIR_VecAssign F (F 8) (inst_of Vec4Shuffle 1 0 0x54 0)))
         (machine_of [0x3F800000, 0x40000000, 0x40400000, 0x40800000, 0]))
      (F (unat (dest (inst_of Vec4Shuffle 1 0 0x54 0)) + 1))
   \<noteq> fr (machine_of [0x3F800000, 0x40000000, 0x40400000, 0x40800000, 0])
        (F (unat (src1 (inst_of Vec4Shuffle 1 0 0x54 0)) +
            shuffle_lane (src2 (inst_of Vec4Shuffle 1 0 0x54 0)) 1))"
  by code_simp

section \<open>Vec4Shuffle in place: number of moves\<close>

lemma lane_reg_temp_iff:
  assumes "t \<notin> R ` {d..<d + 4}" and "x \<in> lane_regs"
  shows "lane_reg R d t x = t \<longleftrightarrow> x = R_ZERO"
proof -
  have l: "lane_reg R d t (F j) \<noteq> t" if "j < 4" for j
    using assms(1) that by auto
  have "(\<exists>j<4. x = F j) \<or> x = R_ZERO"
    using assms(2) unfolding lane_regs_def by auto
  then show ?thesis
  proof (elim disjE exE conjE)
    fix j assume "j < 4" and "x = F j"
    with l [of j] show ?thesis by simp
  next
    assume "x = R_ZERO"
    then show ?thesis by simp
  qed
qed

lemma move_kind_rename:
  assumes "t \<notin> R ` {d..<d + 4}" and "move_within lane_regs i"
  shows "move_kind t (rename_inst (lane_reg R d t) i) = move_kind R_ZERO i"
proof (cases i)
  case (FMV32 rd rs)
  with assms(2) have "rd \<in> lane_regs" and "rs \<in> lane_regs" by simp_all
  then show ?thesis
    using FMV32 by (simp add: lane_reg_temp_iff [OF assms(1)])
qed (use assms(2) in simp_all)

lemma move_kinds_rename:
  assumes "t \<notin> R ` {d..<d + 4}" and "list_all (move_within lane_regs) (host_code as)"
  shows "move_kinds t (map (rename_action (lane_reg R d t)) as) = move_kinds R_ZERO as"
  using assms(2)
  by (simp add: move_kinds_def host_code_rename list_all_iff move_kind_rename [OF assms(1)])

text \<open>
  C2 (as amended). For every in-place \<^verbatim>\<open>Vec4Shuffle\<close> instruction and every selection immediate,
  with the temporary outside the four lane registers, the emitted code consists of register
  moves only: at most 6 in all, of which at most 4 from lane to lane and at most 2 into the
  temporary, each of these matched by one move out of it.
\<close>

theorem C2_inplace_move_counts:
  assumes "op inst = Vec4Shuffle" and "dest inst = src1 inst"
    and "tempReg \<notin> R ` {unat (dest inst)..<unat (dest inst) + 4}"
  shows "length (move_kinds tempReg (CompIR_VecAssign R tempReg inst)) \<le> 6
       \<and> count_list (move_kinds tempReg (CompIR_VecAssign R tempReg inst)) LaneMove \<le> 4
       \<and> count_list (move_kinds tempReg (CompIR_VecAssign R tempReg inst)) ToTemp \<le> 2
       \<and> count_list (move_kinds tempReg (CompIR_VecAssign R tempReg inst)) FromTemp =
         count_list (move_kinds tempReg (CompIR_VecAssign R tempReg inst)) ToTemp
       \<and> NoMove \<notin> set (move_kinds tempReg (CompIR_VecAssign R tempReg inst))"
proof -
  let ?d = "unat (dest inst)" and ?l = "shuffle_lane (src2 inst)"
  let ?g = "[?l 0, ?l 1, ?l 2, ?l 3]"
  have ok: "inplace_ok ?g"
    by (rule inplace_ok_goal) (rule shuffle_lane_less)+
  then have w: "list_all (move_within lane_regs) (host_code (shuffle_inplace F 0 R_ZERO ?g))"
    by (simp add: inplace_ok_def Let_def)
  have "move_kinds tempReg (CompIR_VecAssign R tempReg inst) =
        move_kinds tempReg (shuffle_inplace R ?d tempReg ?g)"
    by (simp add: shuffle_code_inplace [OF assms(1,2)] move_kinds_def)
  also have "\<dots> = move_kinds R_ZERO (shuffle_inplace F 0 R_ZERO ?g)"
    by (simp only: shuffle_inplace_rename [of R ?d tempReg] move_kinds_rename [OF assms(3) w])
  finally show ?thesis
    using ok by (simp add: inplace_ok_def Let_def)
qed

theorem C2_inplace_move_counts_witness:
  "op (inst_of Vec4Shuffle 0 0 0x1B 0) = Vec4Shuffle \<and>
   dest (inst_of Vec4Shuffle 0 0 0x1B 0) = src1 (inst_of Vec4Shuffle 0 0 0x1B 0) \<and>
   F 4 \<notin> F ` {0..<4} \<and>
   length (move_kinds (F 4) (CompIR_VecAssign F (F 4) (inst_of Vec4Shuffle 0 0 0x1B 0))) \<le> 6"
proof -
  let ?I = "inst_of Vec4Shuffle 0 0 0x1B 0"
  have a: "op ?I = Vec4Shuffle" and b: "dest ?I = src1 ?I" and d0: "unat (dest ?I) = 0"
    by (simp_all add: inst_of_def)
  have e': "F 4 \<notin> F ` {0..<4}" by auto
  have e: "F 4 \<notin> F ` {unat (dest ?I)..<unat (dest ?I) + 4}"
    unfolding d0 using e' by simp
  from C2_inplace_move_counts [OF a b e]
  have "length (move_kinds (F 4) (CompIR_VecAssign F (F 4) ?I)) \<le> 6" by (rule conjunct1)
  with a b e' show ?thesis by (simp only: simp_thms)
qed

text \<open>
  C2 as stated fails: for the immediate \<open>0xB1\<close>, which swaps lanes 0 and 1 and lanes 2 and 3,
  the code makes two round trips through the temporary (six moves); for \<open>0x0D\<close> it makes four
  lane-to-lane moves.
\<close>

theorem C2_two_round_trips_counterexample:
  "count_list (move_kinds (F 4) (CompIR_VecAssign F (F 4) (inst_of Vec4Shuffle 0 0 0xB1 0))) ToTemp = 2
   \<and> count_list (move_kinds (F 4) (CompIR_VecAssign F (F 4) (inst_of Vec4Shuffle 0 0 0xB1 0))) FromTemp = 2
   \<and> count_list (move_kinds (F 4) (CompIR_VecAssign F (F 4) (inst_of Vec4Shuffle 0 0 0x0D 0))) LaneMove = 4"
  by code_simp

section \<open>Vec4Blend\<close>

lemma blend_which: "(drop_bit i c AND 1 \<noteq> 0) = bit c i" for c :: "32 word"
  by (simp add: and_one_eq bit_iff_odd_drop_bit odd_iff_mod_2_eq_one)

lemma blend_code:
  "op inst = Vec4Blend \<Longrightarrow>
   host_code (CompIR_VecAssign R t inst) =
     map (\<lambda>i. FMV32 (R (unat (dest inst) + i))
                     (R ((if bit (constant_u32 inst) i then unat (src2 inst) else unat (src1 inst)) + i)))
         [0..<4]"
  by (simp add: CompIR_VecAssign_def Let_def upt4 blend_which)

lemma group_lane_neq:
  fixes d a i k :: nat
  assumes "inj_on R A" and "{d..<d + 4} \<subseteq> A" and "{a..<a + 4} \<subseteq> A"
    and "d = a \<or> d + 4 \<le> a \<or> a + 4 \<le> d" and "i < 4" and "k < 4" and "i \<noteq> k"
  shows "R (d + i) \<noteq> R (a + k)"
proof (rule inj_on_lanes_neq [OF assms(1)])
  show "d + i \<in> A" using assms(2,5) by auto
  show "a + k \<in> A" using assms(3,6) by auto
  show "d + i \<noteq> a + k" using assms(4,5,6,7) by auto
qed

text \<open>
  C4 (as amended). For every \<^verbatim>\<open>Vec4Blend\<close> instruction whose destination group is, for each of
  the two source groups, either that group or disjoint from it, for every mask and with the
  lanes in distinct host registers: output lane \<open>i\<close> is the initial content of lane \<open>i\<close> of the
  second source when bit \<open>i\<close> of the mask is 1, of the first source when it is 0. The code
  reads each lane just before it writes it: lane \<open>i\<close> is moved before lane \<open>i + 1\<close> is read.
\<close>

theorem C4_blend_lanes:
  assumes "op inst = Vec4Blend"
    and "dest inst = src1 inst \<or> unat (dest inst) + 4 \<le> unat (src1 inst)
         \<or> unat (src1 inst) + 4 \<le> unat (dest inst)"
    and "dest inst = src2 inst \<or> unat (dest inst) + 4 \<le> unat (src2 inst)
         \<or> unat (src2 inst) + 4 \<le> unat (dest inst)"
    and "inj_on R ({unat (dest inst)..<unat (dest inst) + 4} \<union>
                   {unat (src1 inst)..<unat (src1 inst) + 4} \<union>
                   {unat (src2 inst)..<unat (src2 inst) + 4})"
    and "i < 4"
  shows "fr (exec fpu (host_code (CompIR_VecAssign R tempReg inst)) s) (R (unat (dest inst) + i)) =
           fr s (R ((if bit (constant_u32 inst) i then unat (src2 inst) else unat (src1 inst)) + i))
         \<and> host_code (CompIR_VecAssign R tempReg inst) =
           map (\<lambda>i. FMV32 (R (unat (dest inst) + i))
                 (R ((if bit (constant_u32 inst) i then unat (src2 inst) else unat (src1 inst)) + i)))
               [0..<4]"
proof -
  let ?d = "unat (dest inst)" and ?a = "unat (src1 inst)" and ?b = "unat (src2 inst)"
  let ?A = "{?d..<?d + 4} \<union> {?a..<?a + 4} \<union> {?b..<?b + 4}"
  let ?src = "\<lambda>i. R ((if bit (constant_u32 inst) i then ?b else ?a) + i)"
  have inj: "inj_on R {?d..<?d + 4}"
    using assms(4) by (rule inj_on_subset) auto
  have ga: "?d = ?a \<or> ?d + 4 \<le> ?a \<or> ?a + 4 \<le> ?d" using assms(2) by auto
  have gb: "?d = ?b \<or> ?d + 4 \<le> ?b \<or> ?b + 4 \<le> ?d" using assms(3) by auto
  have "fr (exec fpu (map (\<lambda>i. FMV32 (R (?d + i)) (?src i)) [0..<4]) s) (R (?d + i)) = fr s (?src i)"
  proof (rule moves_lanewise [where dst = "\<lambda>i. R (?d + i)" and src = ?src])
    show "distinct (map (\<lambda>i. R (?d + i)) [0..<4])" by (rule lanes_distinct [OF inj])
    show "R (?d + j) \<noteq> ?src k" if "j < k" "k < 4" for j k
    proof (cases "bit (constant_u32 inst) k")
      case True
      have "R (?d + j) \<noteq> R (?b + k)"
        by (rule group_lane_neq [OF assms(4) _ _ gb]) (use that in auto)
      with True show ?thesis by simp
    next
      case False
      have "R (?d + j) \<noteq> R (?a + k)"
        by (rule group_lane_neq [OF assms(4) _ _ ga]) (use that in auto)
      with False show ?thesis by simp
    qed
    show "i < 4" by (rule assms(5))
  qed
  then show ?thesis
    by (simp only: blend_code [OF assms(1)] simp_thms)
qed

theorem C4_blend_lanes_witness:
  "op (inst_of Vec4Blend 0 0 4 0x5) = Vec4Blend \<and>
   dest (inst_of Vec4Blend 0 0 4 0x5) = src1 (inst_of Vec4Blend 0 0 4 0x5) \<and>
   unat (dest (inst_of Vec4Blend 0 0 4 0x5)) + 4 \<le> unat (src2 (inst_of Vec4Blend 0 0 4 0x5)) \<and>
   inj_on F ({0..<4} \<union> {4..<8}) \<and>
   map (fr (exec ring_fpu (host_code (CompIR_VecAssign F (F 8) (inst_of Vec4Blend 0 0 4 0x5)))
              (machine_of [10, 11, 12, 13, 20, 21, 22, 23])))
       [F 0, F 1, F 2, F 3] = [20, 11, 22, 13]"
proof -
  let ?I = "inst_of Vec4Blend 0 0 4 0x5"
  let ?s = "machine_of [10, 11, 12, 13, 20, 21, 22, 23]"
  have a: "op ?I = Vec4Blend" and b': "dest ?I = src1 ?I"
    and c': "unat (dest ?I) + 4 \<le> unat (src2 ?I)"
    and d0: "unat (dest ?I) = 0" and a0: "unat (src1 ?I) = 0" and b0: "unat (src2 ?I) = 4"
    by (simp_all add: inst_of_def)
  have b: "dest ?I = src1 ?I \<or> unat (dest ?I) + 4 \<le> unat (src1 ?I)
           \<or> unat (src1 ?I) + 4 \<le> unat (dest ?I)"
    using b' by simp
  have c: "dest ?I = src2 ?I \<or> unat (dest ?I) + 4 \<le> unat (src2 ?I)
           \<or> unat (src2 ?I) + 4 \<le> unat (dest ?I)"
    using c' by simp
  have e': "inj_on F ({0..<4} \<union> {4..<8})" by (simp add: inj_on_def)
  have e: "inj_on F ({unat (dest ?I)..<unat (dest ?I) + 4} \<union>
                     {unat (src1 ?I)..<unat (src1 ?I) + 4} \<union>
                     {unat (src2 ?I)..<unat (src2 ?I) + 4})"
    by (simp add: inj_on_def)
  have m: "bit (constant_u32 ?I) 0" "\<not> bit (constant_u32 ?I) 1"
    "bit (constant_u32 ?I) 2" "\<not> bit (constant_u32 ?I) 3"
    by code_simp+
  have v: "fr (exec ring_fpu (host_code (CompIR_VecAssign F (F 8) ?I)) ?s) (F i) =
             fr ?s (F ((if bit (constant_u32 ?I) i then 4 else 0) + i))" if "i < 4" for i
    using C4_blend_lanes [OF a b c e that, of ring_fpu "F 8" ?s, THEN conjunct1]
    by (simp only: d0 a0 b0 add_0)
  have "fr (exec ring_fpu (host_code (CompIR_VecAssign F (F 8) ?I)) ?s) (F 0) = 20"
    "fr (exec ring_fpu (host_code (CompIR_VecAssign F (F 8) ?I)) ?s) (F 1) = 11"
    "fr (exec ring_fpu (host_code (CompIR_VecAssign F (F 8) ?I)) ?s) (F 2) = 22"
    "fr (exec ring_fpu (host_code (CompIR_VecAssign F (F 8) ?I)) ?s) (F 3) = 13"
    by (simp_all only: v m) (simp_all add: machine_of_def)
  then show ?thesis
    using a b' c' e' by (simp only: list.map simp_thms)
qed

text \<open>
  C4 as stated fails when the destination group overlaps a source group without being
  it: with destination lanes in \<open>F 1..F 4\<close>, first source in \<open>F 0..F 3\<close> and mask 0, lane 0
  is written into \<open>F 1\<close> before lane 1 reads \<open>F 1\<close>, so output lane 1 is not the initial
  content of lane 1 of the first source.
\<close>

theorem C4_blend_overlap_counterexample:
  "fr (exec ring_fpu (host_code (CompIR_VecAssign F (F 16) (inst_of Vec4Blend 1 0 8 0)))
         (machine_of [10, 11, 12, 13, 14]))
      (F (unat (dest (inst_of Vec4Blend 1 0 8 0)) + 1))
   \<noteq> fr (machine_of [10, 11, 12, 13, 14])
        (F ((if bit (constant_u32 (inst_of Vec4Blend 1 0 8 0)) 1
             then unat (src2 (inst_of Vec4Blend 1 0 8 0))
             else unat (src1 (inst_of Vec4Blend 1 0 8 0))) + 1))"
  by code_simp

section \<open>Unpack8To32 and Pack31To8\<close>

lemma unpack_word:
  "i < 4 \<Longrightarrow> low32 (push_bit 24 (drop_bit (i * 8) (sext32 x))) = unpack8_lane x i"
  unfolding low32_def sext32_def unpack8_lane_def
proof (rule bit_word_eqI)
  fix n assume i: "i < 4" and n: "n < LENGTH(32)"
  then have "min (i * 8 + n - 24) 31 = i * 8 + n - 24" by simp
  with i n show "bit (ucast (push_bit 24 (drop_bit (i * 8) (scast x :: 64 word))) :: 32 word) n
     = bit (push_bit 24 (drop_bit (i * 8) x)) n"
    by (auto simp add: bit_simps)
qed

lemma unpack_word0: "low32 (push_bit 24 (sext32 x)) = unpack8_lane x 0"
  using unpack_word [of 0 x] by simp

lemma bit_unpack8_lane:
  "bit (unpack8_lane x i) n \<longleftrightarrow> 24 \<le> n \<and> n < 32 \<and> bit x (i * 8 + (n - 24))"
  unfolding unpack8_lane_def by (auto simp add: bit_simps)

lemma pack_word:
  "low32 ((((drop_bit 23 (sext32 y0) AND 0xFF) OR
          push_bit 8 (drop_bit 23 (sext32 y1) AND 0xFF)) OR
          push_bit 16 (drop_bit 23 (sext32 y2) AND 0xFF)) OR
          push_bit 24 (drop_bit 23 (sext32 y3) AND 0xFF)) = pack31to8 y0 y1 y2 y3"
proof -
  have m: "(0xFF :: 64 word) = mask 8" by (simp add: mask_eq_exp_minus_1)
  show ?thesis
    unfolding low32_def sext32_def pack31to8_def m
    by (rule bit_word_eqI) (auto simp add: bit_simps min_def simp flip: take_bit_eq_mask)
qed

lemma byte_pack:
  "byte_of (pack31to8 y0 y1 y2 y3) 0 = ucast (drop_bit 23 y0)"
  "byte_of (pack31to8 y0 y1 y2 y3) 1 = ucast (drop_bit 23 y1)"
  "byte_of (pack31to8 y0 y1 y2 y3) 2 = ucast (drop_bit 23 y2)"
  "byte_of (pack31to8 y0 y1 y2 y3) 3 = ucast (drop_bit 23 y3)"
  unfolding byte_of_def pack31to8_def
  by (rule bit_word_eqI; auto simp add: bit_simps)+

lemma byte_unpack_top:
  "i < 4 \<Longrightarrow> ucast (drop_bit 23 (unpack8_lane x i)) = 2 * byte_of x i"
proof -
  assume i: "i < 4"
  have d: "bit (w * 2) n \<longleftrightarrow> n \<noteq> 0 \<and> n < 8 \<and> bit w (n - 1)" for w :: "8 word" and n
    using bit_double_iff [of w n] by (auto simp add: mult.commute dest: bit_imp_le_length)
  have "ucast (drop_bit 23 (unpack8_lane x i)) = byte_of x i * 2"
    unfolding byte_of_def
    by (rule bit_word_eqI) (use i in \<open>auto simp add: bit_simps bit_unpack8_lane d\<close>)
  then show ?thesis by (simp add: mult.commute)
qed

lemma roundtrip_bytes:
  assumes "i < 4"
  shows "byte_of (pack31to8 (unpack8_lane x 0) (unpack8_lane x 1) (unpack8_lane x 2)
                            (unpack8_lane x 3)) i = 2 * byte_of x i"
proof -
  from assms consider "i = 0" | "i = 1" | "i = 2" | "i = 3" by linarith
  then show ?thesis
  proof cases
    case 1 show ?thesis unfolding 1 byte_pack by (rule byte_unpack_top) simp
  next
    case 2 show ?thesis unfolding 2 byte_pack by (rule byte_unpack_top) simp
  next
    case 3 show ?thesis unfolding 3 byte_pack by (rule byte_unpack_top) simp
  next
    case 4 show ?thesis unfolding 4 byte_pack by (rule byte_unpack_top) simp
  qed
qed

lemma unpack_fr:
  "op inst = Vec4Unpack8To32 \<Longrightarrow>
   fr (exec fpu (host_code (CompIR_VecPack R inst)) s) =
     foldl (\<lambda>f i. f(R (unat (dest inst) + i) := unpack8_lane (fr s (R (unat (src1 inst)))) i))
           (fr s) [0..<4]"
  by (simp add: CompIR_VecPack_def Let_def upt4 setx_def setf_def getx_def
        unpack_word [of 1, simplified] unpack_word [of 2, simplified]
        unpack_word [of 3, simplified] unpack_word0)

lemma pack_fr:
  "op inst = Vec4Pack31To8 \<Longrightarrow>
   fr (exec fpu (host_code (CompIR_VecPack R inst)) s) =
     (fr s)(R (unat (dest inst)) :=
        pack31to8 (fr s (R (unat (src1 inst)))) (fr s (R (unat (src1 inst) + 1)))
                  (fr s (R (unat (src1 inst) + 2))) (fr s (R (unat (src1 inst) + 3))))"
  by (simp add: CompIR_VecPack_def Let_def upt4 setx_def setf_def getx_def pack_word [simplified])

lemma unpack_lane_value:
  assumes "op inst = Vec4Unpack8To32" and "inj_on R {unat (dest inst)..<unat (dest inst) + 4}"
    and "i < 4"
  shows "fr (exec fpu (host_code (CompIR_VecPack R inst)) s) (R (unat (dest inst) + i)) =
           unpack8_lane (fr s (R (unat (src1 inst)))) i"
  unfolding unpack_fr [OF assms(1)] by (rule lanes_assigned [OF assms(2,3)])

lemma unpack_then_pack_fr:
  assumes "op u = Vec4Unpack8To32" and "op p = Vec4Pack31To8" and "src1 p = dest u"
    and "inj_on R {unat (dest u)..<unat (dest u) + 4}"
  shows "fr (exec fpu (host_code (CompIR_VecPack R u) @ host_code (CompIR_VecPack R p)) s)
            (R (unat (dest p))) =
         pack31to8 (unpack8_lane (fr s (R (unat (src1 u)))) 0)
                   (unpack8_lane (fr s (R (unat (src1 u)))) 1)
                   (unpack8_lane (fr s (R (unat (src1 u)))) 2)
                   (unpack8_lane (fr s (R (unat (src1 u)))) 3)"
proof -
  let ?s1 = "exec fpu (host_code (CompIR_VecPack R u)) s"
  have l: "fr ?s1 (R (unat (dest u) + i)) = unpack8_lane (fr s (R (unat (src1 u)))) i"
    if "i < 4" for i
    using unpack_lane_value [OF assms(1) assms(4) that] .
  have l0: "fr ?s1 (R (unat (dest u))) = unpack8_lane (fr s (R (unat (src1 u)))) 0"
    using l [of 0] by simp
  have l1: "fr ?s1 (R (Suc (unat (dest u)))) = unpack8_lane (fr s (R (unat (src1 u)))) 1"
    using l [of 1] by simp
  have l2: "fr ?s1 (R (Suc (Suc (unat (dest u))))) = unpack8_lane (fr s (R (unat (src1 u)))) 2"
    using l [of 2] by simp
  show ?thesis
    by (simp add: exec_append pack_fr [OF assms(2)] assms(3) l l0 l1 l2)
qed

text \<open>
  C10. For every \<^verbatim>\<open>Vec4Unpack8To32\<close> instruction whose four destination lanes are held in
  distinct host registers, every source pattern and every lane \<open>i < 4\<close>: bit \<open>n\<close> of
  destination lane \<open>i\<close> is set exactly when \<open>n\<close> is among bits 31..24 and the bit
  \<open>8 i + (n - 24)\<close> of the source pattern is set; bits 23..0 are zero.
\<close>

theorem C10_unpack8to32_lanes:
  assumes "op inst = Vec4Unpack8To32"
    and "inj_on R {unat (dest inst)..<unat (dest inst) + 4}"
    and "i < 4" and "n < 32"
  shows "bit (fr (exec fpu (host_code (CompIR_VecPack R inst)) s) (R (unat (dest inst) + i))) n
           \<longleftrightarrow> 24 \<le> n \<and> bit (fr s (R (unat (src1 inst)))) (8 * i + (n - 24))"
  unfolding unpack_lane_value [OF assms(1,2,3)] bit_unpack8_lane
  using assms(4) by (simp add: mult.commute)

theorem C10_unpack8to32_lanes_witness:
  "op (inst_of Vec4Unpack8To32 4 0 0 0) = Vec4Unpack8To32 \<and> inj_on F {4..<8} \<and>
   bit (fr (exec ring_fpu (host_code (CompIR_VecPack F (inst_of Vec4Unpack8To32 4 0 0 0)))
              (machine_of [0x12345678])) (F 5)) 25"
proof -
  have i: "op (inst_of Vec4Unpack8To32 4 0 0 0) = Vec4Unpack8To32"
    by (simp add: inst_of_def)
  have j: "inj_on F {unat (dest (inst_of Vec4Unpack8To32 4 0 0 0))..<
                      unat (dest (inst_of Vec4Unpack8To32 4 0 0 0)) + 4}"
    by (simp add: inj_on_def)
  have "bit (fr (exec ring_fpu (host_code (CompIR_VecPack F (inst_of Vec4Unpack8To32 4 0 0 0)))
              (machine_of [0x12345678])) (F (unat (dest (inst_of Vec4Unpack8To32 4 0 0 0)) + 1))) 25
        \<longleftrightarrow> 24 \<le> (25 :: nat) \<and>
          bit (fr (machine_of [0x12345678]) (F (unat (src1 (inst_of Vec4Unpack8To32 4 0 0 0)))))
              (8 * 1 + (25 - 24))"
    by (rule C10_unpack8to32_lanes [OF i j]) simp_all
  moreover have "unat (dest (inst_of Vec4Unpack8To32 4 0 0 0)) + 1 = 5"
    by (simp add: inst_of_def)
  moreover have "bit (fr (machine_of [0x12345678])
                       (F (unat (src1 (inst_of Vec4Unpack8To32 4 0 0 0))))) (8 * 1 + (25 - 24))"
    by (simp add: inst_of_def machine_of_def)
  ultimately show ?thesis
    using i by (simp add: inj_on_def)
qed

text \<open>
  C5 (as amended). Unpacking a packed pattern with \<^verbatim>\<open>Vec4Unpack8To32\<close> and packing the four
  lanes again with \<^verbatim>\<open>Vec4Pack31To8\<close> gives, in every byte lane, twice the original byte
  modulo 256: the unpack puts the byte in bits 31..24, the pack reads bits 30..23.
\<close>

theorem C5_unpack_then_pack_doubles:
  assumes "op u = Vec4Unpack8To32" and "op p = Vec4Pack31To8" and "src1 p = dest u"
    and "inj_on R {unat (dest u)..<unat (dest u) + 4}" and "i < 4"
  shows "byte_of (fr (exec fpu (host_code (CompIR_VecPack R u) @ host_code (CompIR_VecPack R p)) s)
                     (R (unat (dest p)))) i
         = 2 * byte_of (fr s (R (unat (src1 u)))) i"
  unfolding unpack_then_pack_fr [OF assms(1,2,3,4)] by (rule roundtrip_bytes [OF assms(5)])

theorem C5_unpack_then_pack_doubles_witness:
  "op (inst_of Vec4Unpack8To32 4 0 0 0) = Vec4Unpack8To32 \<and>
   op (inst_of Vec4Pack31To8 8 4 0 0) = Vec4Pack31To8 \<and>
   src1 (inst_of Vec4Pack31To8 8 4 0 0) = dest (inst_of Vec4Unpack8To32 4 0 0 0) \<and>
   inj_on F {4..<8} \<and>
   byte_of (fr (exec ring_fpu (host_code (CompIR_VecPack F (inst_of Vec4Unpack8To32 4 0 0 0)) @
                               host_code (CompIR_VecPack F (inst_of Vec4Pack31To8 8 4 0 0)))
                  (machine_of [0x12345678])) (F 8)) 0 = 0xF0"
proof -
  let ?u = "inst_of Vec4Unpack8To32 4 0 0 0" and ?p = "inst_of Vec4Pack31To8 8 4 0 0"
  have a: "op ?u = Vec4Unpack8To32" and b: "op ?p = Vec4Pack31To8" and c: "src1 ?p = dest ?u"
    by (simp_all add: inst_of_def)
  have d: "inj_on F {unat (dest ?u)..<unat (dest ?u) + 4}"
    by (simp add: inj_on_def)
  have e: "unat (dest ?p) = 8" and f: "unat (src1 ?u) = 0"
    by (simp_all add: inst_of_def)
  have "byte_of (fr (exec ring_fpu (host_code (CompIR_VecPack F ?u) @ host_code (CompIR_VecPack F ?p))
                  (machine_of [0x12345678])) (F (unat (dest ?p)))) 0
        = 2 * byte_of (fr (machine_of [0x12345678]) (F (unat (src1 ?u)))) 0"
    by (rule C5_unpack_then_pack_doubles [OF a b c d]) simp
  moreover have "byte_of (fr (machine_of [0x12345678]) (F 0)) 0 = 0x78"
    by (simp add: machine_of_def byte_of_def)
  ultimately show ?thesis
    using a b c by (simp add: e f inj_on_def)
qed

text \<open>
  C5 as stated fails: the packed pattern 1, unpacked and packed again, comes back as 2.
\<close>

theorem C5_roundtrip_counterexample:
  "fr (exec ring_fpu (host_code (CompIR_VecPack F (inst_of Vec4Unpack8To32 4 0 0 0)) @
                      host_code (CompIR_VecPack F (inst_of Vec4Pack31To8 8 4 0 0)))
         (machine_of [1])) (F 8)
   \<noteq> fr (machine_of [1]) (F 0)"
proof
  let ?u = "inst_of Vec4Unpack8To32 4 0 0 0" and ?p = "inst_of Vec4Pack31To8 8 4 0 0"
  let ?x = "fr (machine_of [1]) (F 0)"
  assume eq: "fr (exec ring_fpu (host_code (CompIR_VecPack F ?u) @ host_code (CompIR_VecPack F ?p))
                 (machine_of [1])) (F 8) = ?x"
  have a: "op ?u = Vec4Unpack8To32" and b: "op ?p = Vec4Pack31To8" and c: "src1 ?p = dest ?u"
    by (simp_all add: inst_of_def)
  have d: "inj_on F {unat (dest ?u)..<unat (dest ?u) + 4}"
    by (simp add: inj_on_def)
  have e: "unat (dest ?p) = 8" and f: "unat (src1 ?u) = 0"
    by (simp_all add: inst_of_def)
  have "fr (exec ring_fpu (host_code (CompIR_VecPack F ?u) @ host_code (CompIR_VecPack F ?p))
              (machine_of [1])) (F 8)
        = pack31to8 (unpack8_lane ?x 0) (unpack8_lane ?x 1) (unpack8_lane ?x 2) (unpack8_lane ?x 3)"
    using unpack_then_pack_fr [OF a b c d, of ring_fpu "machine_of [1]"] by (simp only: e f)
  with eq have "byte_of ?x 0 = 2 * byte_of ?x 0"
    using roundtrip_bytes [of 0 ?x] by simp
  moreover have "byte_of ?x 0 = 1"
    by (simp add: machine_of_def byte_of_def)
  ultimately show False by simp
qed

section \<open>Unpack8To32, DuplicateUpperBitsAndShift1, Pack31To8\<close>

lemma low32_or: "low32 (a OR b) = low32 a OR low32 b"
  unfolding low32_def by (rule bit_word_eqI) (simp add: bit_simps)

lemma dup_fr:
  "op inst = Vec4DuplicateUpperBitsAndShift1 \<Longrightarrow>
   fr (exec fpu (host_code (CompIR_VecPack R inst)) s) =
     foldl (\<lambda>f i. f(R (unat (dest inst) + i) := dup_shift1 (f (R (unat (src1 inst) + i)))))
           (fr s) [0..<4]"
  by (simp add: CompIR_VecPack_def Let_def upt4 setx_def setf_def getx_def low32_sext32 low32_or
        dup_shift1_def)

lemma fold_map_distinct:
  "distinct ks \<Longrightarrow>
   foldl (\<lambda>f k. f(k := g (f k))) f0 ks k = (if k \<in> set ks then g (f0 k) else f0 k)"
proof (induction ks rule: rev_induct)
  case Nil
  show ?case by simp
next
  case (snoc a ks)
  then show ?case by auto
qed

lemma lanes_mapped:
  assumes "inj_on R {d..<d + 4}" and "i < 4"
  shows "foldl (\<lambda>f j. f(R (d + j) := g (f (R (d + j))))) f0 [0..<4] (R (d + i)) = g (f0 (R (d + i)))"
proof -
  have "foldl (\<lambda>f j. f(R (d + j) := g (f (R (d + j))))) f0 [0..<4] =
        foldl (\<lambda>f k. f(k := g (f k))) f0 (map (\<lambda>j. R (d + j)) [0..<4])"
    by (simp add: foldl_map)
  moreover have "R (d + i) \<in> set (map (\<lambda>j. R (d + j)) [0..<4])"
    using assms(2) by auto
  ultimately show ?thesis
    using fold_map_distinct [OF lanes_distinct [OF assms(1)], of g f0 "R (d + i)"] by simp
qed

lemma byte_dup_unpack:
  assumes "i < 4"
  shows "ucast (drop_bit 23 (dup_shift1 (unpack8_lane x i))) = byte_of x i"
  unfolding dup_shift1_def byte_of_def
  by (rule bit_word_eqI) (use assms in \<open>auto simp add: bit_simps bit_unpack8_lane\<close>)

lemma word_eq_bytes:
  assumes "\<And>i. i < 4 \<Longrightarrow> byte_of a i = byte_of b i"
  shows "a = b"
proof (rule bit_word_eqI)
  fix n assume n: "n < LENGTH(32)"
  have e: "bit w n = bit (byte_of w (n div 8)) (n mod 8)" for w
    using n by (simp add: byte_of_def bit_simps mult.commute)
  from n have "n div 8 < 4" by simp
  from assms [OF this] show "bit a n = bit b n" by (simp add: e)
qed

text \<open>
  With \<^verbatim>\<open>Vec4DuplicateUpperBitsAndShift1\<close> applied in place to the unpacked lanes, the
  pack does return the original pattern: the three instructions in a row are the identity
  on the packed register.
\<close>

lemma unpack_dup_pack_identity:
  assumes "op u = Vec4Unpack8To32" and "op m = Vec4DuplicateUpperBitsAndShift1"
    and "op p = Vec4Pack31To8"
    and "dest m = dest u" and "src1 m = dest u" and "src1 p = dest u"
    and "inj_on R {unat (dest u)..<unat (dest u) + 4}"
  shows "fr (exec fpu (host_code (CompIR_VecPack R u) @ host_code (CompIR_VecPack R m) @
                       host_code (CompIR_VecPack R p)) s) (R (unat (dest p)))
         = fr s (R (unat (src1 u)))"
proof -
  let ?x = "fr s (R (unat (src1 u)))" and ?v = "unat (dest u)"
  let ?s1 = "exec fpu (host_code (CompIR_VecPack R u)) s"
  let ?s2 = "exec fpu (host_code (CompIR_VecPack R m)) ?s1"
  have l1: "fr ?s1 (R (?v + i)) = unpack8_lane ?x i" if "i < 4" for i
    using unpack_lane_value [OF assms(1) assms(7) that] .
  have l2: "fr ?s2 (R (?v + i)) = dup_shift1 (unpack8_lane ?x i)" if "i < 4" for i
    unfolding dup_fr [OF assms(2)] assms(4,5)
    using lanes_mapped [OF assms(7) that, of dup_shift1 "fr ?s1"] l1 [OF that] by simp
  have r: "fr (exec fpu (host_code (CompIR_VecPack R p)) ?s2) (R (unat (dest p))) =
        pack31to8 (dup_shift1 (unpack8_lane ?x 0)) (dup_shift1 (unpack8_lane ?x 1))
                  (dup_shift1 (unpack8_lane ?x 2)) (dup_shift1 (unpack8_lane ?x 3))"
    using l2 [of 0] l2 [of 1] l2 [of 2] l2 [of 3]
    by (simp add: pack_fr [OF assms(3)] assms(6))
  have "pack31to8 (dup_shift1 (unpack8_lane ?x 0)) (dup_shift1 (unpack8_lane ?x 1))
                  (dup_shift1 (unpack8_lane ?x 2)) (dup_shift1 (unpack8_lane ?x 3)) = ?x"
  proof (rule word_eq_bytes)
    fix i :: nat assume "i < 4"
    then consider "i = 0" | "i = 1" | "i = 2" | "i = 3" by linarith
    then show "byte_of (pack31to8 (dup_shift1 (unpack8_lane ?x 0)) (dup_shift1 (unpack8_lane ?x 1))
                  (dup_shift1 (unpack8_lane ?x 2)) (dup_shift1 (unpack8_lane ?x 3))) i
               = byte_of ?x i"
    proof cases
      case 1 show ?thesis unfolding 1 byte_pack by (rule byte_dup_unpack) simp
    next
      case 2 show ?thesis unfolding 2 byte_pack by (rule byte_dup_unpack) simp
    next
      case 3 show ?thesis unfolding 3 byte_pack by (rule byte_dup_unpack) simp
    next
      case 4 show ?thesis unfolding 4 byte_pack by (rule byte_dup_unpack) simp
    qed
  qed
  with r show ?thesis by (simp add: exec_append)
qed

section \<open>Vec4Dot\<close>

lemma dot_exact:
  assumes "fpu_exact fpu" and "k < 4"
  shows "dot_fma fpu a b k = dot_left_to_right fpu a b"
proof -
  have f: "fmadd fpu x y z = fadd fpu (fmul fpu x y) z" for x y z
    using assms(1) unfolding fpu_exact_def by blast
  have c: "fadd fpu x y = fadd fpu y x" for x y
    using assms(1) unfolding fpu_exact_def by blast
  have a: "fadd fpu (fadd fpu x y) z = fadd fpu x (fadd fpu y z)" for x y z
    using assms(1) unfolding fpu_exact_def by blast
  have l: "fadd fpu x (fadd fpu y z) = fadd fpu y (fadd fpu x z)" for x y z
    by (metis a c)
  from assms(2) consider "k = 0" | "k = 1" | "k = 2" | "k = 3" by linarith
  then show ?thesis
    by cases (simp_all add: dot_fma_def dot_left_to_right_def upt4 f a c l)
qed

lemma fmadd_chain:
  assumes "\<forall>i\<in>set js. ra i \<noteq> rd \<and> rb i \<noteq> rd"
    and "\<forall>r. r \<noteq> rd \<longrightarrow> fr s' r = fr s r"
  shows "fr (exec fpu (map (\<lambda>i. FMADD32 rd (ra i) (rb i) rd) js) s') rd =
           foldl (\<lambda>acc i. fmadd fpu (fr s (ra i)) (fr s (rb i)) acc) (fr s' rd) js"
  using assms
proof (induction js arbitrary: s')
  case Nil
  show ?case by simp
next
  case (Cons j js)
  let ?s = "exec_inst fpu (FMADD32 rd (ra j) (rb j) rd) s'"
  have 1: "\<forall>i\<in>set js. ra i \<noteq> rd \<and> rb i \<noteq> rd" using Cons.prems(1) by simp
  have 2: "\<forall>r. r \<noteq> rd \<longrightarrow> fr ?s r = fr s r" using Cons.prems(2) by (simp add: fr_setf)
  have 3: "fr ?s rd = fmadd fpu (fr s (ra j)) (fr s (rb j)) (fr s' rd)"
    using Cons.prems by (simp add: fr_setf)
  show ?case
    using Cons.IH [OF 1 2] by (simp only: list.map exec.simps foldl.simps 3)
qed

lemma dot_chain_value:
  assumes "\<forall>i\<in>set js. ra i \<noteq> rd \<and> rb i \<noteq> rd"
  shows "fr (exec fpu (FMUL32 rd (ra k) (rb k) # map (\<lambda>i. FMADD32 rd (ra i) (rb i) rd) js) s) rd =
           foldl (\<lambda>acc i. fmadd fpu (fr s (ra i)) (fr s (rb i)) acc)
                 (fmul fpu (fr s (ra k)) (fr s (rb k))) js"
proof -
  let ?s = "exec_inst fpu (FMUL32 rd (ra k) (rb k)) s"
  have "\<forall>r. r \<noteq> rd \<longrightarrow> fr ?s r = fr s r" by (simp add: fr_setf)
  from fmadd_chain [OF assms this, of fpu]
  show ?thesis by (simp add: fr_setf)
qed

lemma dot_code:
  assumes "op inst = Vec4Dot"
  shows "host_code (CompIR_VecHoriz R inst) =
    (if (unat (dest inst) < unat (src1 inst) + 4 \<and> unat (dest inst) \<ge> unat (src1 inst)) \<or>
        (unat (dest inst) < unat (src2 inst) + 4 \<and> unat (dest inst) \<ge> unat (src2 inst))
     then
       concat (map (\<lambda>i. if unat (dest inst) = unat (src1 inst) + i \<or>
                            unat (dest inst) = unat (src2 inst) + i
                         then [FMUL32 (R (unat (dest inst))) (R (unat (src1 inst) + i))
                                      (R (unat (src2 inst) + i))] else []) [0, 1, 2, 3]) @
       concat (map (\<lambda>i. if unat (dest inst) \<noteq> unat (src1 inst) + i \<and>
                            unat (dest inst) \<noteq> unat (src2 inst) + i
                         then [FMADD32 (R (unat (dest inst))) (R (unat (src1 inst) + i))
                                       (R (unat (src2 inst) + i)) (R (unat (dest inst)))]
                         else []) [0, 1, 2, 3])
     else
       FMUL32 (R (unat (dest inst))) (R (unat (src1 inst))) (R (unat (src2 inst))) #
       map (\<lambda>i. FMADD32 (R (unat (dest inst))) (R (unat (src1 inst) + i))
                         (R (unat (src2 inst) + i)) (R (unat (dest inst)))) [1, 2, 3])"
proof -
  have h: "host_code (if c then [Host x] else []) = (if c then [x] else [])" for c x
    by simp
  show ?thesis
    using assms
    by (simp add: CompIR_VecHoriz_def Let_def upt4 upt_Suc0_4 host_code_append h
          if_distrib [of host_code] split del: if_split cong: if_cong)
qed

lemma filter_not_lane:
  "filter (\<lambda>i. i \<noteq> 0) [0, 1, 2, 3 :: nat] = [1, 2, 3]"
  "filter (\<lambda>i. i \<noteq> 1) [0, 1, 2, 3 :: nat] = [0, 2, 3]"
  "filter (\<lambda>i. i \<noteq> 2) [0, 1, 2, 3 :: nat] = [0, 1, 3]"
  "filter (\<lambda>i. i \<noteq> 3) [0, 1, 2, 3 :: nat] = [0, 1, 2]"
  by simp_all

lemma dot_code_lane:
  assumes "op inst = Vec4Dot"
    and "src1 inst = src2 inst \<or>
         \<not> (unat (src1 inst) \<le> unat (dest inst) \<and> unat (dest inst) < unat (src1 inst) + 4 \<and>
            unat (src2 inst) \<le> unat (dest inst) \<and> unat (dest inst) < unat (src2 inst) + 4)"
  shows "host_code (CompIR_VecHoriz R inst) =
           FMUL32 (R (unat (dest inst)))
                  (R (unat (src1 inst) + alias_lane (unat (dest inst)) (unat (src1 inst)) (unat (src2 inst))))
                  (R (unat (src2 inst) + alias_lane (unat (dest inst)) (unat (src1 inst)) (unat (src2 inst)))) #
           map (\<lambda>i. FMADD32 (R (unat (dest inst))) (R (unat (src1 inst) + i))
                             (R (unat (src2 inst) + i)) (R (unat (dest inst))))
               (filter (\<lambda>i. i \<noteq> alias_lane (unat (dest inst)) (unat (src1 inst)) (unat (src2 inst)))
                       [0..<4])"
proof -
  let ?d = "unat (dest inst)" and ?a = "unat (src1 inst)" and ?b = "unat (src2 inst)"
  let ?k = "alias_lane ?d ?a ?b"
  let ?al = "(?d < ?a + 4 \<and> ?d \<ge> ?a) \<or> (?d < ?b + 4 \<and> ?d \<ge> ?b)"
  have single: "?a = ?b \<or> \<not> (?a \<le> ?d \<and> ?d < ?a + 4 \<and> ?b \<le> ?d \<and> ?d < ?b + 4)"
    using assms(2) by auto
  show ?thesis
  proof (cases ?al)
    case False
    then have k: "?k = 0" by (auto simp add: alias_lane_def)
    show ?thesis
      by (simp only: dot_code [OF assms(1)] if_not_P [OF False] k upt4 filter_not_lane
            add_0_right)
  next
    case True
    then have k4: "?k < 4" by (auto simp add: alias_lane_def)
    have hit: "?d = ?a + ?k \<or> ?d = ?b + ?k"
      using True by (auto simp add: alias_lane_def)
    have t: "(?d = ?a + i \<or> ?d = ?b + i) = (i = ?k)" if "i < 4" for i
      using True single that by (auto simp add: alias_lane_def)
    have n: "(?d \<noteq> ?a + i \<and> ?d \<noteq> ?b + i) = (i \<noteq> ?k)" if "i < 4" for i
      using t [OF that] by auto
    have t0: "(?d = ?a + 0 \<or> ?d = ?b + 0) = (0 = ?k)" by (rule t) simp
    have t1: "(?d = ?a + 1 \<or> ?d = ?b + 1) = (1 = ?k)" by (rule t) simp
    have t2: "(?d = ?a + 2 \<or> ?d = ?b + 2) = (2 = ?k)" by (rule t) simp
    have t3: "(?d = ?a + 3 \<or> ?d = ?b + 3) = (3 = ?k)" by (rule t) simp
    have n0: "(?d \<noteq> ?a + 0 \<and> ?d \<noteq> ?b + 0) = (0 \<noteq> ?k)" by (rule n) simp
    have n1: "(?d \<noteq> ?a + 1 \<and> ?d \<noteq> ?b + 1) = (1 \<noteq> ?k)" by (rule n) simp
    have n2: "(?d \<noteq> ?a + 2 \<and> ?d \<noteq> ?b + 2) = (2 \<noteq> ?k)" by (rule n) simp
    have n3: "(?d \<noteq> ?a + 3 \<and> ?d \<noteq> ?b + 3) = (3 \<noteq> ?k)" by (rule n) simp
    have code: "host_code (CompIR_VecHoriz R inst) =
       (if 0 = ?k then [FMUL32 (R ?d) (R (?a + 0)) (R (?b + 0))] else []) @
       (if 1 = ?k then [FMUL32 (R ?d) (R (?a + 1)) (R (?b + 1))] else []) @
       (if 2 = ?k then [FMUL32 (R ?d) (R (?a + 2)) (R (?b + 2))] else []) @
       (if 3 = ?k then [FMUL32 (R ?d) (R (?a + 3)) (R (?b + 3))] else []) @
       (if 0 \<noteq> ?k then [FMADD32 (R ?d) (R (?a + 0)) (R (?b + 0)) (R ?d)] else []) @
       (if 1 \<noteq> ?k then [FMADD32 (R ?d) (R (?a + 1)) (R (?b + 1)) (R ?d)] else []) @
       (if 2 \<noteq> ?k then [FMADD32 (R ?d) (R (?a + 2)) (R (?b + 2)) (R ?d)] else []) @
       (if 3 \<noteq> ?k then [FMADD32 (R ?d) (R (?a + 3)) (R (?b + 3)) (R ?d)] else [])"
      by (simp only: dot_code [OF assms(1)] if_P [OF True] list.map concat.simps append_Nil2
            append_assoc t0 t1 t2 t3 n0 n1 n2 n3)
    from k4 consider "?k = 0" | "?k = 1" | "?k = 2" | "?k = 3" by linarith
    then show ?thesis
    proof cases
      case 1 show ?thesis unfolding code upt4 unfolding 1 filter_not_lane by simp
    next
      case 2 show ?thesis unfolding code upt4 unfolding 2 filter_not_lane by simp
    next
      case 3 show ?thesis unfolding code upt4 unfolding 3 filter_not_lane by simp
    next
      case 4 show ?thesis unfolding code upt4 unfolding 4 filter_not_lane by simp
    qed
  qed
qed

lemma alias_lane_less: "alias_lane d a b < 4"
  by (auto simp add: alias_lane_def)

lemma alias_lane_other:
  fixes d a b i :: nat
  assumes "a = b \<or> \<not> (a \<le> d \<and> d < a + 4 \<and> b \<le> d \<and> d < b + 4)"
    and "i < 4" and "i \<noteq> alias_lane d a b"
  shows "d \<noteq> a + i \<and> d \<noteq> b + i"
  using assms by (auto simp add: alias_lane_def split: if_splits)

text \<open>
  C3 (as amended). For every \<^verbatim>\<open>Vec4Dot\<close> instruction whose destination register is not a
  lane of both source groups at two different lane numbers, and with the nine registers
  in distinct host registers: let \<open>k\<close> be the lane at which the destination coincides with
  a source lane, or 0 when it coincides with none. The emitted code is one multiply of lane
  \<open>k\<close> into the destination followed by the fused multiply-adds of the three other lanes in
  lane order (for \<open>k = 0\<close>: the multiply of lane 0, then lanes 1, 2, 3). The destination ends
  with that accumulation of the initial source lanes; when the arithmetic does not round,
  this is the left-to-right sum of the four lane products.
\<close>

theorem C3_dot_product:
  assumes "op inst = Vec4Dot"
    and "src1 inst = src2 inst \<or>
         \<not> (unat (src1 inst) \<le> unat (dest inst) \<and> unat (dest inst) < unat (src1 inst) + 4 \<and>
            unat (src2 inst) \<le> unat (dest inst) \<and> unat (dest inst) < unat (src2 inst) + 4)"
    and "inj_on R ({unat (dest inst)} \<union> {unat (src1 inst)..<unat (src1 inst) + 4} \<union>
                   {unat (src2 inst)..<unat (src2 inst) + 4})"
    and "k = alias_lane (unat (dest inst)) (unat (src1 inst)) (unat (src2 inst))"
  shows "host_code (CompIR_VecHoriz R inst) =
           FMUL32 (R (unat (dest inst))) (R (unat (src1 inst) + k)) (R (unat (src2 inst) + k)) #
           map (\<lambda>i. FMADD32 (R (unat (dest inst))) (R (unat (src1 inst) + i))
                             (R (unat (src2 inst) + i)) (R (unat (dest inst))))
               (filter (\<lambda>i. i \<noteq> k) [0..<4])
       \<and> (if (unat (src1 inst) \<le> unat (dest inst) \<and> unat (dest inst) < unat (src1 inst) + 4) \<or>
              (unat (src2 inst) \<le> unat (dest inst) \<and> unat (dest inst) < unat (src2 inst) + 4)
           then k < 4 \<and> (unat (dest inst) = unat (src1 inst) + k \<or>
                          unat (dest inst) = unat (src2 inst) + k)
           else k = 0)
       \<and> fr (exec fpu (host_code (CompIR_VecHoriz R inst)) s) (R (unat (dest inst))) =
           dot_fma fpu (lanes_of s R (unat (src1 inst))) (lanes_of s R (unat (src2 inst))) k
       \<and> (fpu_exact fpu \<longrightarrow>
           fr (exec fpu (host_code (CompIR_VecHoriz R inst)) s) (R (unat (dest inst))) =
             dot_left_to_right fpu (lanes_of s R (unat (src1 inst)))
                                   (lanes_of s R (unat (src2 inst))))"
proof -
  let ?d = "unat (dest inst)" and ?a = "unat (src1 inst)" and ?b = "unat (src2 inst)"
  let ?A = "{?d} \<union> {?a..<?a + 4} \<union> {?b..<?b + 4}"
  have single: "?a = ?b \<or> \<not> (?a \<le> ?d \<and> ?d < ?a + 4 \<and> ?b \<le> ?d \<and> ?d < ?b + 4)"
    using assms(2) by auto
  have code: "host_code (CompIR_VecHoriz R inst) =
           FMUL32 (R ?d) (R (?a + k)) (R (?b + k)) #
           map (\<lambda>i. FMADD32 (R ?d) (R (?a + i)) (R (?b + i)) (R ?d)) (filter (\<lambda>i. i \<noteq> k) [0..<4])"
    unfolding assms(4) by (rule dot_code_lane [OF assms(1,2)])
  have lane: "if (?a \<le> ?d \<and> ?d < ?a + 4) \<or> (?b \<le> ?d \<and> ?d < ?b + 4)
              then k < 4 \<and> (?d = ?a + k \<or> ?d = ?b + k) else k = 0"
    unfolding assms(4) by (auto simp add: alias_lane_def)
  have ne: "\<forall>i\<in>set (filter (\<lambda>i. i \<noteq> k) [0..<4]). R (?a + i) \<noteq> R ?d \<and> R (?b + i) \<noteq> R ?d"
  proof
    fix i assume "i \<in> set (filter (\<lambda>i. i \<noteq> k) [0..<4])"
    then have i: "i < 4" and ik: "i \<noteq> alias_lane ?d ?a ?b" by (simp_all add: assms(4))
    from alias_lane_other [OF single i ik] have "?a + i \<noteq> ?d" and "?b + i \<noteq> ?d" by auto
    moreover have "?a + i \<in> ?A" and "?b + i \<in> ?A" and "?d \<in> ?A" using i by auto
    ultimately show "R (?a + i) \<noteq> R ?d \<and> R (?b + i) \<noteq> R ?d"
      using inj_on_lanes_neq [OF assms(3)] by blast
  qed
  have val: "fr (exec fpu (host_code (CompIR_VecHoriz R inst)) s) (R ?d) =
               dot_fma fpu (lanes_of s R ?a) (lanes_of s R ?b) k"
    unfolding code dot_fma_def lanes_of_def
    by (rule dot_chain_value [where ra = "\<lambda>i. R (?a + i)" and rb = "\<lambda>i. R (?b + i)", OF ne])
  have k4: "k < 4" unfolding assms(4) by (rule alias_lane_less)
  show ?thesis
    using code lane val dot_exact [OF _ k4, of fpu] by simp
qed

lemma ring_fpu_exact: "fpu_exact ring_fpu"
  by (simp add: fpu_exact_def ring_fpu_def algebra_simps)

theorem C3_dot_product_witness:
  "op (inst_of Vec4Dot 2 0 4 0) = Vec4Dot \<and>
   unat (dest (inst_of Vec4Dot 2 0 4 0)) = 2 \<and> unat (src1 (inst_of Vec4Dot 2 0 4 0)) = 0 \<and>
   unat (src2 (inst_of Vec4Dot 2 0 4 0)) = 4 \<and>
   inj_on F ({2} \<union> {0..<4} \<union> {4..<8}) \<and> fpu_exact ring_fpu \<and>
   alias_lane 2 0 4 = 2 \<and>
   host_code (CompIR_VecHoriz F (inst_of Vec4Dot 2 0 4 0)) =
     [FMUL32 (F 2) (F 2) (F 6), FMADD32 (F 2) (F 0) (F 4) (F 2),
      FMADD32 (F 2) (F 1) (F 5) (F 2), FMADD32 (F 2) (F 3) (F 7) (F 2)] \<and>
   fr (exec ring_fpu (host_code (CompIR_VecHoriz F (inst_of Vec4Dot 2 0 4 0)))
         (machine_of [2, 3, 5, 7, 11, 13, 17, 19])) (F 2) = 279"
proof -
  let ?I = "inst_of Vec4Dot 2 0 4 0" and ?s = "machine_of [2, 3, 5, 7, 11, 13, 17, 19]"
  have a: "op ?I = Vec4Dot" and d0: "unat (dest ?I) = 2" and a0: "unat (src1 ?I) = 0"
    and b0: "unat (src2 ?I) = 4"
    by (simp_all add: inst_of_def)
  have b: "src1 ?I = src2 ?I \<or>
           \<not> (unat (src1 ?I) \<le> unat (dest ?I) \<and> unat (dest ?I) < unat (src1 ?I) + 4 \<and>
              unat (src2 ?I) \<le> unat (dest ?I) \<and> unat (dest ?I) < unat (src2 ?I) + 4)"
    by (simp add: d0 a0 b0)
  have c': "inj_on F ({2} \<union> {0..<4} \<union> {4..<8})" by (simp add: inj_on_def)
  have c: "inj_on F ({unat (dest ?I)} \<union> {unat (src1 ?I)..<unat (src1 ?I) + 4} \<union>
                     {unat (src2 ?I)..<unat (src2 ?I) + 4})"
    by (simp add: inj_on_def)
  have k: "alias_lane 2 0 4 = 2" by (simp add: alias_lane_def)
  have k': "2 = alias_lane (unat (dest ?I)) (unat (src1 ?I)) (unat (src2 ?I))"
    by (simp add: d0 a0 b0 alias_lane_def)
  note T = C3_dot_product [OF a b c k', of ring_fpu ?s]
  have code: "host_code (CompIR_VecHoriz F ?I) =
     [FMUL32 (F 2) (F 2) (F 6), FMADD32 (F 2) (F 0) (F 4) (F 2),
      FMADD32 (F 2) (F 1) (F 5) (F 2), FMADD32 (F 2) (F 3) (F 7) (F 2)]"
    using T [THEN conjunct1] by (simp add: d0 a0 b0 upt4)
  have "fr (exec ring_fpu (host_code (CompIR_VecHoriz F ?I)) ?s) (F (unat (dest ?I))) =
          dot_left_to_right ring_fpu (lanes_of ?s F (unat (src1 ?I))) (lanes_of ?s F (unat (src2 ?I)))"
    using T [THEN conjunct2, THEN conjunct2, THEN conjunct2] ring_fpu_exact by (rule mp)
  moreover have "dot_left_to_right ring_fpu (lanes_of ?s F 0) (lanes_of ?s F 4) = 279"
    by code_simp
  ultimately have "fr (exec ring_fpu (host_code (CompIR_VecHoriz F ?I)) ?s) (F 2) = 279"
    by (simp only: d0 a0 b0)
  with a d0 a0 b0 c' ring_fpu_exact k code show ?thesis
    by (simp only: simp_thms)
qed

text \<open>
  C3 as stated fails when the destination is a lane of both source groups at different
  lane numbers: with the first source in \<open>F 0..F 3\<close>, the second in \<open>F 1..F 4\<close> and the
  destination \<open>F 1\<close>, the code has two multiplies into the destination (lanes 0 and 1), the
  second overwriting the first product, and the result differs from the sum of the four
  products even in exact arithmetic (142 against 133 on the lanes 2, 3, 5, 7 and 3, 5, 7, 11).
\<close>

theorem C3_dot_double_alias_counterexample:
  "host_code (CompIR_VecHoriz F (inst_of Vec4Dot 1 0 1 0)) =
     [FMUL32 (F 1) (F 0) (F 1), FMUL32 (F 1) (F 1) (F 2),
      FMADD32 (F 1) (F 2) (F 3) (F 1), FMADD32 (F 1) (F 3) (F 4) (F 1)] \<and>
   fr (exec ring_fpu (host_code (CompIR_VecHoriz F (inst_of Vec4Dot 1 0 1 0)))
         (machine_of [2, 3, 5, 7, 11])) (F 1) = 142 \<and>
   dot_left_to_right ring_fpu (lanes_of (machine_of [2, 3, 5, 7, 11]) F 0)
                              (lanes_of (machine_of [2, 3, 5, 7, 11]) F 1) = 133"
  by code_simp

section \<open>Clamp to zero\<close>

lemma clamp_lane_fr:
  "fr (exec fpu (clamp_lane zbb rd rs) s) = (fr s)(rd := clamp_to_zero (fr s rs))"
  by (cases zbb)
     (simp_all add: clamp_lane_def fr_setf fr_setx getx_setx getx_setf low32_sext32 clamp_word)

lemma clamp_lane_scratch1:
  "xr (exec fpu (clamp_lane zbb rd rs) s) SCRATCH1 =
     sext32 (fr s rs) AND NOT (sext32 (signed_drop_bit 31 (fr s rs)))"
  by (cases zbb)
     (simp_all add: clamp_lane_def setx_def setf_def getx_def low32_sext32)

lemma clamp_code:
  "op inst = Vec4ClampToZero \<Longrightarrow>
   host_code (CompIR_VecClamp zbb R inst) =
     concat (map (\<lambda>i. clamp_lane zbb (R (unat (dest inst) + i)) (R (unat (src1 inst) + i)))
                 [0..<4])"
  by (cases zbb) (simp_all add: CompIR_VecClamp_def Let_def upt4 clamp_lane_def)

lemma clamp_code_other:
  "op inst \<noteq> Vec4ClampToZero \<Longrightarrow> CompIR_VecClamp zbb R inst = CompIR_VecClamp False R inst"
  by (cases "op inst") (simp_all add: CompIR_VecClamp_def)

text \<open>
  On every state the code of \<^verbatim>\<open>Vec4ClampToZero\<close> acts as four lane assignments in lane
  order, each reading the current content of its source register.
\<close>

lemma clamp_fr:
  "op inst = Vec4ClampToZero \<Longrightarrow>
   fr (exec fpu (host_code (CompIR_VecClamp zbb R inst)) s) =
     foldl (\<lambda>f i. f(R (unat (dest inst) + i) :=
                      clamp_to_zero (f (R (unat (src1 inst) + i)))))
           (fr s) [0..<4]"
  by (simp only: clamp_code exec_concat_map upt4 foldl.simps clamp_lane_fr)

lemma clamp_code_insts:
  "op inst = Vec4ClampToZero \<Longrightarrow>
   host_code (CompIR_VecClamp zbb R inst) =
     concat (map (\<lambda>i. [FMV_X_W SCRATCH1 (R (unat (src1 inst) + i)),
                        SRAIW SCRATCH2 SCRATCH1 31] @
                       (if zbb then [ANDN SCRATCH1 SCRATCH1 SCRATCH2]
                        else [NOT_X SCRATCH2 SCRATCH2, AND_X SCRATCH1 SCRATCH1 SCRATCH2]) @
                       [FMV_W_X (R (unat (dest inst) + i)) SCRATCH1]) [0..<4])"
  by (simp add: clamp_code clamp_lane_def)

lemma sign_mask:
  "xr (exec fpu [FMV_X_W SCRATCH1 rs, SRAIW SCRATCH2 SCRATCH1 31] s) SCRATCH2 =
     (if bit (fr s rs) 31 then - 1 else 0)"
  by (simp add: setx_def getx_def low32_sext32 sra31 sext32_minus1 sext32_0)

lemma fold_frame:
  "r \<notin> dst ` {0..<n} \<Longrightarrow>
   foldl (\<lambda>f i. f(dst i := g (f (src i)))) f0 [0..<n] r = f0 r"
proof (induction n)
  case 0
  show ?case by simp
next
  case (Suc n)
  then have "r \<notin> dst ` {0..<n}" and "r \<noteq> dst n" by auto
  with Suc.IH show ?case by simp
qed

text \<open>
  A run of assignments \<open>dst i := g (src i)\<close> for \<open>i = 0 .. n - 1\<close>: when the destinations are
  distinct and no destination is the source of a later assignment, every destination ends
  with \<open>g\<close> of the initial content of its source.
\<close>

lemma fold_lanewise:
  assumes "distinct (map dst [0..<n])"
    and "\<And>i j. i < j \<Longrightarrow> j < n \<Longrightarrow> dst i \<noteq> src j"
    and "j < n"
  shows "foldl (\<lambda>f i. f(dst i := g (f (src i)))) f0 [0..<n] (dst j) = g (f0 (src j))"
  using assms
proof (induction n)
  case 0
  then show ?case by simp
next
  case (Suc n)
  let ?f = "foldl (\<lambda>f i. f(dst i := g (f (src i)))) f0 [0..<n]"
  have d: "distinct (map dst [0..<n])" and dn: "dst n \<notin> dst ` {0..<n}"
    using Suc.prems(1) by auto
  have step: "foldl (\<lambda>f i. f(dst i := g (f (src i)))) f0 [0..<Suc n] =
                (?f)(dst n := g (?f (src n)))"
    by simp
  show ?case
  proof (cases "j = n")
    case True
    have "src n \<notin> dst ` {0..<n}"
    proof
      assume "src n \<in> dst ` {0..<n}"
      then obtain i where "i < n" and "src n = dst i" by auto
      with Suc.prems(2) [of i n] show False by simp
    qed
    then have "?f (src n) = f0 (src n)" by (rule fold_frame)
    then show ?thesis unfolding True step by (simp only: fun_upd_same)
  next
    case False
    with Suc.prems(3) have j: "j < n" by simp
    have ne: "dst j \<noteq> dst n"
    proof
      assume "dst j = dst n"
      moreover have "dst j \<in> dst ` {0..<n}" using j by (intro imageI) simp
      ultimately show False using dn by simp
    qed
    have "?f (dst j) = g (f0 (src j))"
    proof (rule Suc.IH [OF d _ j])
      fix i k
      assume "i < k" and "k < n"
      then show "dst i \<noteq> src k" using Suc.prems(2) [of i k] by simp
    qed
    then show ?thesis unfolding step fun_upd_other [OF ne] .
  qed
qed

text \<open>
  C6 (as amended). For every \<^verbatim>\<open>Vec4ClampToZero\<close> instruction whose destination group is the
  source group or disjoint from it, with or without Zbb, with the lanes in distinct host
  registers and for every bit pattern of the lanes: output lane \<open>i\<close> is the all-zero pattern
  when the sign bit of the initial content of input lane \<open>i\<close> is set, and that initial
  content unchanged when it is clear. The code is branch-free, per lane \<^verbatim>\<open>fmv.x.w\<close>,
  \<^verbatim>\<open>sraiw 31\<close>, and-not, \<^verbatim>\<open>fmv.w.x\<close>, and the arithmetic shift leaves the mask in \<open>SCRATCH2\<close>:
  all ones for a set sign bit, all zeros for a clear one.
\<close>

theorem C6_clamp_to_zero:
  assumes "op inst = Vec4ClampToZero"
    and "dest inst = src1 inst \<or> unat (dest inst) + 4 \<le> unat (src1 inst)
         \<or> unat (src1 inst) + 4 \<le> unat (dest inst)"
    and "inj_on R ({unat (dest inst)..<unat (dest inst) + 4} \<union>
                   {unat (src1 inst)..<unat (src1 inst) + 4})"
    and "i < 4"
  shows "fr (exec fpu (host_code (CompIR_VecClamp zbb R inst)) s) (R (unat (dest inst) + i)) =
           (if bit (fr s (R (unat (src1 inst) + i))) 31 then 0
            else fr s (R (unat (src1 inst) + i)))
         \<and> host_code (CompIR_VecClamp zbb R inst) =
           concat (map (\<lambda>i. [FMV_X_W SCRATCH1 (R (unat (src1 inst) + i)),
                              SRAIW SCRATCH2 SCRATCH1 31] @
                             (if zbb then [ANDN SCRATCH1 SCRATCH1 SCRATCH2]
                              else [NOT_X SCRATCH2 SCRATCH2, AND_X SCRATCH1 SCRATCH1 SCRATCH2]) @
                             [FMV_W_X (R (unat (dest inst) + i)) SCRATCH1]) [0..<4])
         \<and> xr (exec fpu [FMV_X_W SCRATCH1 (R (unat (src1 inst) + i)),
                          SRAIW SCRATCH2 SCRATCH1 31] s) SCRATCH2 =
           (if bit (fr s (R (unat (src1 inst) + i))) 31 then - 1 else 0)"
proof -
  let ?d = "unat (dest inst)" and ?a = "unat (src1 inst)"
  let ?A = "{?d..<?d + 4} \<union> {?a..<?a + 4}"
  have inj: "inj_on R {?d..<?d + 4}"
    using assms(3) by (rule inj_on_subset) auto
  have ga: "?d = ?a \<or> ?d + 4 \<le> ?a \<or> ?a + 4 \<le> ?d" using assms(2) by auto
  have "foldl (\<lambda>f i. f(R (?d + i) := clamp_to_zero (f (R (?a + i))))) (fr s) [0..<4] (R (?d + i)) =
          clamp_to_zero (fr s (R (?a + i)))"
  proof (rule fold_lanewise [where dst = "\<lambda>i. R (?d + i)" and src = "\<lambda>i. R (?a + i)"])
    show "distinct (map (\<lambda>i. R (?d + i)) [0..<4])" by (rule lanes_distinct [OF inj])
    show "R (?d + j) \<noteq> R (?a + k)" if "j < k" "k < 4" for j k
      by (rule group_lane_neq [OF assms(3) _ _ ga]) (use that in auto)
    show "i < 4" by (rule assms(4))
  qed
  then have "fr (exec fpu (host_code (CompIR_VecClamp zbb R inst)) s) (R (?d + i)) =
               (if bit (fr s (R (?a + i))) 31 then 0 else fr s (R (?a + i)))"
    by (simp only: clamp_fr [OF assms(1)] clamp_to_zero_def)
  then show ?thesis
    by (simp only: clamp_code_insts [OF assms(1)] sign_mask simp_thms)
qed

theorem C6_clamp_to_zero_witness:
  "op (inst_of Vec4ClampToZero 4 0 0 0) = Vec4ClampToZero \<and>
   unat (src1 (inst_of Vec4ClampToZero 4 0 0 0)) + 4 \<le> unat (dest (inst_of Vec4ClampToZero 4 0 0 0)) \<and>
   inj_on F ({4..<8} \<union> {0..<4}) \<and>
   map (fr (exec ring_fpu (host_code (CompIR_VecClamp True F (inst_of Vec4ClampToZero 4 0 0 0)))
              (machine_of [0x80000001, 0x3F800000, 0xFFFFFFFF, 0])))
       [F 4, F 5, F 6, F 7] = [0, 0x3F800000, 0, 0]"
proof -
  let ?I = "inst_of Vec4ClampToZero 4 0 0 0"
  let ?s = "machine_of [0x80000001, 0x3F800000, 0xFFFFFFFF, 0]"
  have a: "op ?I = Vec4ClampToZero"
    and b': "unat (src1 ?I) + 4 \<le> unat (dest ?I)"
    and d0: "unat (dest ?I) = 4" and a0: "unat (src1 ?I) = 0"
    by (simp_all add: inst_of_def)
  have b: "dest ?I = src1 ?I \<or> unat (dest ?I) + 4 \<le> unat (src1 ?I)
           \<or> unat (src1 ?I) + 4 \<le> unat (dest ?I)"
    using b' by simp
  have e': "inj_on F ({4..<8} \<union> {0..<4})" by (simp add: inj_on_def)
  have e: "inj_on F ({unat (dest ?I)..<unat (dest ?I) + 4} \<union>
                     {unat (src1 ?I)..<unat (src1 ?I) + 4})"
    by (simp add: inj_on_def)
  have v: "fr (exec ring_fpu (host_code (CompIR_VecClamp True F ?I)) ?s) (F (4 + i)) =
             (if bit (fr ?s (F (0 + i))) 31 then 0 else fr ?s (F (0 + i)))" if "i < 4" for i
    using C6_clamp_to_zero [OF a b e that, of ring_fpu True ?s, THEN conjunct1]
    by (simp only: d0 a0)
  have l: "(0::nat) < 4" "(1::nat) < 4" "(2::nat) < 4" "(3::nat) < 4"
    by simp_all
  have n: "(4::nat) + 0 = 4" "(4::nat) + 1 = 5" "(4::nat) + 2 = 6" "(4::nat) + 3 = 7"
    by simp_all
  have s0: "fr ?s (F (0 + 0)) = 0x80000001" "fr ?s (F (0 + 1)) = 0x3F800000"
    "fr ?s (F (0 + 2)) = 0xFFFFFFFF" "fr ?s (F (0 + 3)) = 0"
    by (simp_all add: machine_of_def)
  have b0: "bit (0x80000001 :: 32 word) 31" "\<not> bit (0x3F800000 :: 32 word) 31"
    "bit (0xFFFFFFFF :: 32 word) 31" "\<not> bit (0 :: 32 word) 31"
    by simp_all
  have "fr (exec ring_fpu (host_code (CompIR_VecClamp True F ?I)) ?s) (F 4) = 0"
    "fr (exec ring_fpu (host_code (CompIR_VecClamp True F ?I)) ?s) (F 5) = 0x3F800000"
    "fr (exec ring_fpu (host_code (CompIR_VecClamp True F ?I)) ?s) (F 6) = 0"
    "fr (exec ring_fpu (host_code (CompIR_VecClamp True F ?I)) ?s) (F 7) = 0"
  proof -
    show "fr (exec ring_fpu (host_code (CompIR_VecClamp True F ?I)) ?s) (F 4) = 0"
      using v [OF l(1)] unfolding n s0 by (simp only: b0 if_True if_False)
    show "fr (exec ring_fpu (host_code (CompIR_VecClamp True F ?I)) ?s) (F 5) = 0x3F800000"
      using v [OF l(2)] unfolding n s0 by (simp only: b0 if_True if_False)
    show "fr (exec ring_fpu (host_code (CompIR_VecClamp True F ?I)) ?s) (F 6) = 0"
      using v [OF l(3)] unfolding n s0 by (simp only: b0 if_True if_False)
    show "fr (exec ring_fpu (host_code (CompIR_VecClamp True F ?I)) ?s) (F 7) = 0"
      using v [OF l(4)] unfolding n s0 by (simp only: b0 if_True if_False)
  qed
  then show ?thesis
    using a b' e' by (simp only: list.map simp_thms)
qed

text \<open>
  C6 as stated fails when the destination group overlaps the source group without being
  it: with destination lanes in \<open>F 1..F 4\<close> and source lanes in \<open>F 0..F 3\<close> holding 1.0,
  -1.0, 2.0 and -3.0, lane 0 is written into \<open>F 1\<close> before lane 1 reads \<open>F 1\<close>, so the
  negative input lane 1 comes out as 1.0 and not as zero.
\<close>

theorem C6_clamp_overlap_counterexample:
  "bit (fr (machine_of [0x3F800000, 0xBF800000, 0x40000000, 0xC0400000])
           (F (unat (src1 (inst_of Vec4ClampToZero 1 0 0 0)) + 1))) 31
   \<and> fr (exec ring_fpu (host_code (CompIR_VecClamp True F (inst_of Vec4ClampToZero 1 0 0 0)))
            (machine_of [0x3F800000, 0xBF800000, 0x40000000, 0xC0400000]))
        (F (unat (dest (inst_of Vec4ClampToZero 1 0 0 0)) + 1)) = 0x3F800000
   \<and> fr (exec ring_fpu (host_code (CompIR_VecClamp False F (inst_of Vec4ClampToZero 1 0 0 0)))
            (machine_of [0x3F800000, 0xBF800000, 0x40000000, 0xC0400000]))
        (F (unat (dest (inst_of Vec4ClampToZero 1 0 0 0)) + 1)) = 0x3F800000"
  by code_simp

text \<open>
  C9. In the code of \<^verbatim>\<open>Vec4ClampToZero\<close> the capability flag selects, after \<^verbatim>\<open>fmv.x.w\<close> and
  \<^verbatim>\<open>sraiw 31\<close> and before \<^verbatim>\<open>fmv.w.x\<close> of every lane, the single instruction \<^verbatim>\<open>andn\<close> with Zbb
  and the two instructions \<^verbatim>\<open>not\<close>, \<^verbatim>\<open>and\<close> without. Each of the two sequences leaves
  \<open>value AND NOT mask\<close> in \<open>SCRATCH1\<close> for every content \<open>value\<close> of \<open>SCRATCH1\<close> and \<open>mask\<close> of
  \<open>SCRATCH2\<close>. With either flag value the code stores into each destination lane the low 32
  bits of \<open>value AND NOT mask\<close>, where \<open>value\<close> is the pattern read from the source lane and
  \<open>mask\<close> its arithmetic shift by 31. The code compiled with the flag set and the code
  compiled with it clear leave the same floating-point registers and the same \<open>SCRATCH1\<close>,
  for every instruction and every state.
\<close>

theorem C9_andn_sequences_agree:
  "(op inst = Vec4ClampToZero \<longrightarrow>
      host_code (CompIR_VecClamp True R inst) =
        concat (map (\<lambda>i. [FMV_X_W SCRATCH1 (R (unat (src1 inst) + i)),
                           SRAIW SCRATCH2 SCRATCH1 31,
                           ANDN SCRATCH1 SCRATCH1 SCRATCH2,
                           FMV_W_X (R (unat (dest inst) + i)) SCRATCH1]) [0..<4])
    \<and> host_code (CompIR_VecClamp False R inst) =
        concat (map (\<lambda>i. [FMV_X_W SCRATCH1 (R (unat (src1 inst) + i)),
                           SRAIW SCRATCH2 SCRATCH1 31,
                           NOT_X SCRATCH2 SCRATCH2,
                           AND_X SCRATCH1 SCRATCH1 SCRATCH2,
                           FMV_W_X (R (unat (dest inst) + i)) SCRATCH1]) [0..<4])
    \<and> fr (exec fpu (host_code (CompIR_VecClamp zbb R inst)) s) =
        foldl (\<lambda>f i. f(R (unat (dest inst) + i) :=
                         low32 (sext32 (f (R (unat (src1 inst) + i))) AND
                                NOT (sext32 (signed_drop_bit 31 (f (R (unat (src1 inst) + i))))))))
              (fr s) [0..<4])
   \<and> xr (exec fpu [ANDN SCRATCH1 SCRATCH1 SCRATCH2] s) SCRATCH1 =
     xr s SCRATCH1 AND NOT (xr s SCRATCH2)
   \<and> xr (exec fpu [NOT_X SCRATCH2 SCRATCH2, AND_X SCRATCH1 SCRATCH1 SCRATCH2] s) SCRATCH1 =
     xr s SCRATCH1 AND NOT (xr s SCRATCH2)
   \<and> fr (exec fpu (host_code (CompIR_VecClamp True R inst)) s) =
     fr (exec fpu (host_code (CompIR_VecClamp False R inst)) s)
   \<and> xr (exec fpu (host_code (CompIR_VecClamp True R inst)) s) SCRATCH1 =
     xr (exec fpu (host_code (CompIR_VecClamp False R inst)) s) SCRATCH1"
proof (intro conjI impI)
  assume c: "op inst = Vec4ClampToZero"
  show "host_code (CompIR_VecClamp True R inst) =
          concat (map (\<lambda>i. [FMV_X_W SCRATCH1 (R (unat (src1 inst) + i)),
                             SRAIW SCRATCH2 SCRATCH1 31,
                             ANDN SCRATCH1 SCRATCH1 SCRATCH2,
                             FMV_W_X (R (unat (dest inst) + i)) SCRATCH1]) [0..<4])"
    using c by (simp add: clamp_code clamp_lane_def)
  show "host_code (CompIR_VecClamp False R inst) =
          concat (map (\<lambda>i. [FMV_X_W SCRATCH1 (R (unat (src1 inst) + i)),
                             SRAIW SCRATCH2 SCRATCH1 31,
                             NOT_X SCRATCH2 SCRATCH2,
                             AND_X SCRATCH1 SCRATCH1 SCRATCH2,
                             FMV_W_X (R (unat (dest inst) + i)) SCRATCH1]) [0..<4])"
    using c by (simp add: clamp_code clamp_lane_def)
  show "fr (exec fpu (host_code (CompIR_VecClamp zbb R inst)) s) =
          foldl (\<lambda>f i. f(R (unat (dest inst) + i) :=
                           low32 (sext32 (f (R (unat (src1 inst) + i))) AND
                                  NOT (sext32 (signed_drop_bit 31 (f (R (unat (src1 inst) + i))))))))
                (fr s) [0..<4]"
    by (simp only: clamp_fr [OF c] clamp_word)
next
  show "xr (exec fpu [ANDN SCRATCH1 SCRATCH1 SCRATCH2] s) SCRATCH1 =
          xr s SCRATCH1 AND NOT (xr s SCRATCH2)"
    by (simp add: setx_def getx_def)
  show "xr (exec fpu [NOT_X SCRATCH2 SCRATCH2, AND_X SCRATCH1 SCRATCH1 SCRATCH2] s) SCRATCH1 =
          xr s SCRATCH1 AND NOT (xr s SCRATCH2)"
    by (simp add: setx_def getx_def)
  show "fr (exec fpu (host_code (CompIR_VecClamp True R inst)) s) =
          fr (exec fpu (host_code (CompIR_VecClamp False R inst)) s)"
  proof (cases "op inst = Vec4ClampToZero")
    case True
    then show ?thesis by (simp only: clamp_fr)
  next
    case False
    then show ?thesis using clamp_code_other [of inst True R] by simp
  qed
  show "xr (exec fpu (host_code (CompIR_VecClamp True R inst)) s) SCRATCH1 =
          xr (exec fpu (host_code (CompIR_VecClamp False R inst)) s) SCRATCH1"
  proof (cases "op inst = Vec4ClampToZero")
    case True
    then show ?thesis
      by (simp only: clamp_code exec_concat_map upt4 foldl.simps clamp_lane_fr
            clamp_lane_scratch1)
  next
    case False
    then show ?thesis using clamp_code_other [of inst True R] by simp
  qed
qed

theorem C9_andn_sequences_agree_witness:
  "op (inst_of Vec4ClampToZero 0 0 0 0) = Vec4ClampToZero \<and>
   host_code (CompIR_VecClamp True F (inst_of Vec4ClampToZero 0 0 0 0)) =
     [FMV_X_W SCRATCH1 (F 0), SRAIW SCRATCH2 SCRATCH1 31, ANDN SCRATCH1 SCRATCH1 SCRATCH2,
      FMV_W_X (F 0) SCRATCH1,
      FMV_X_W SCRATCH1 (F 1), SRAIW SCRATCH2 SCRATCH1 31, ANDN SCRATCH1 SCRATCH1 SCRATCH2,
      FMV_W_X (F 1) SCRATCH1,
      FMV_X_W SCRATCH1 (F 2), SRAIW SCRATCH2 SCRATCH1 31, ANDN SCRATCH1 SCRATCH1 SCRATCH2,
      FMV_W_X (F 2) SCRATCH1,
      FMV_X_W SCRATCH1 (F 3), SRAIW SCRATCH2 SCRATCH1 31, ANDN SCRATCH1 SCRATCH1 SCRATCH2,
      FMV_W_X (F 3) SCRATCH1] \<and>
   host_code (CompIR_VecClamp False F (inst_of Vec4ClampToZero 0 0 0 0)) =
     [FMV_X_W SCRATCH1 (F 0), SRAIW SCRATCH2 SCRATCH1 31, NOT_X SCRATCH2 SCRATCH2,
      AND_X SCRATCH1 SCRATCH1 SCRATCH2, FMV_W_X (F 0) SCRATCH1,
      FMV_X_W SCRATCH1 (F 1), SRAIW SCRATCH2 SCRATCH1 31, NOT_X SCRATCH2 SCRATCH2,
      AND_X SCRATCH1 SCRATCH1 SCRATCH2, FMV_W_X (F 1) SCRATCH1,
      FMV_X_W SCRATCH1 (F 2), SRAIW SCRATCH2 SCRATCH1 31, NOT_X SCRATCH2 SCRATCH2,
      AND_X SCRATCH1 SCRATCH1 SCRATCH2, FMV_W_X (F 2) SCRATCH1,
      FMV_X_W SCRATCH1 (F 3), SRAIW SCRATCH2 SCRATCH1 31, NOT_X SCRATCH2 SCRATCH2,
      AND_X SCRATCH1 SCRATCH1 SCRATCH2, FMV_W_X (F 3) SCRATCH1] \<and>
   map (fr (exec ring_fpu (host_code (CompIR_VecClamp False F (inst_of Vec4ClampToZero 0 0 0 0)))
              (machine_of [0xBF800000, 0x3F800000, 0x80000000, 0x7FFFFFFF])))
       [F 0, F 1, F 2, F 3] = [0, 0x3F800000, 0, 0x7FFFFFFF]"
proof -
  let ?I = "inst_of Vec4ClampToZero 0 0 0 0"
  let ?s = "machine_of [0xBF800000, 0x3F800000, 0x80000000, 0x7FFFFFFF]"
  have a: "op ?I = Vec4ClampToZero"
    and d0: "unat (dest ?I) = 0" and a0: "unat (src1 ?I) = 0"
    by (simp_all add: inst_of_def)
  note T = C9_andn_sequences_agree [where inst = ?I and R = F and fpu = ring_fpu
                                      and zbb = False and s = ?s, THEN conjunct1, rule_format, OF a]
  have c1: "host_code (CompIR_VecClamp True F ?I) =
              concat (map (\<lambda>i. [FMV_X_W SCRATCH1 (F (0 + i)), SRAIW SCRATCH2 SCRATCH1 31,
                                 ANDN SCRATCH1 SCRATCH1 SCRATCH2,
                                 FMV_W_X (F (0 + i)) SCRATCH1]) [0..<4])"
    using T [THEN conjunct1] by (simp only: d0 a0)
  have c2: "host_code (CompIR_VecClamp False F ?I) =
              concat (map (\<lambda>i. [FMV_X_W SCRATCH1 (F (0 + i)), SRAIW SCRATCH2 SCRATCH1 31,
                                 NOT_X SCRATCH2 SCRATCH2, AND_X SCRATCH1 SCRATCH1 SCRATCH2,
                                 FMV_W_X (F (0 + i)) SCRATCH1]) [0..<4])"
    using T [THEN conjunct2, THEN conjunct1] by (simp only: d0 a0)
  have c3: "fr (exec ring_fpu (host_code (CompIR_VecClamp False F ?I)) ?s) =
              foldl (\<lambda>f i. f(F (0 + i) := clamp_to_zero (f (F (0 + i))))) (fr ?s) [0..<4]"
    using T [THEN conjunct2, THEN conjunct2] by (simp only: d0 a0 clamp_word)
  have k1: "host_code (CompIR_VecClamp True F ?I) =
     [FMV_X_W SCRATCH1 (F 0), SRAIW SCRATCH2 SCRATCH1 31, ANDN SCRATCH1 SCRATCH1 SCRATCH2,
      FMV_W_X (F 0) SCRATCH1,
      FMV_X_W SCRATCH1 (F 1), SRAIW SCRATCH2 SCRATCH1 31, ANDN SCRATCH1 SCRATCH1 SCRATCH2,
      FMV_W_X (F 1) SCRATCH1,
      FMV_X_W SCRATCH1 (F 2), SRAIW SCRATCH2 SCRATCH1 31, ANDN SCRATCH1 SCRATCH1 SCRATCH2,
      FMV_W_X (F 2) SCRATCH1,
      FMV_X_W SCRATCH1 (F 3), SRAIW SCRATCH2 SCRATCH1 31, ANDN SCRATCH1 SCRATCH1 SCRATCH2,
      FMV_W_X (F 3) SCRATCH1]"
    unfolding c1 by (simp add: upt4)
  have k2: "host_code (CompIR_VecClamp False F ?I) =
     [FMV_X_W SCRATCH1 (F 0), SRAIW SCRATCH2 SCRATCH1 31, NOT_X SCRATCH2 SCRATCH2,
      AND_X SCRATCH1 SCRATCH1 SCRATCH2, FMV_W_X (F 0) SCRATCH1,
      FMV_X_W SCRATCH1 (F 1), SRAIW SCRATCH2 SCRATCH1 31, NOT_X SCRATCH2 SCRATCH2,
      AND_X SCRATCH1 SCRATCH1 SCRATCH2, FMV_W_X (F 1) SCRATCH1,
      FMV_X_W SCRATCH1 (F 2), SRAIW SCRATCH2 SCRATCH1 31, NOT_X SCRATCH2 SCRATCH2,
      AND_X SCRATCH1 SCRATCH1 SCRATCH2, FMV_W_X (F 2) SCRATCH1,
      FMV_X_W SCRATCH1 (F 3), SRAIW SCRATCH2 SCRATCH1 31, NOT_X SCRATCH2 SCRATCH2,
      AND_X SCRATCH1 SCRATCH1 SCRATCH2, FMV_W_X (F 3) SCRATCH1]"
    unfolding c2 by (simp add: upt4)
  have v: "map (fr (exec ring_fpu (host_code (CompIR_VecClamp False F ?I)) ?s))
             [F 0, F 1, F 2, F 3] = [0, 0x3F800000, 0, 0x7FFFFFFF]"
    unfolding c3 by (simp add: machine_of_def upt4 clamp_to_zero_def)
  show ?thesis
    by (intro conjI a k1 k2 v)
qed

section \<open>The calls of the routines\<close>

lemma performed_no_assert: "AssertFailed \<notin> set as \<Longrightarrow> performed fatal as = as"
  by (induction fatal as rule: performed.induct) simp_all

lemma hosts_plain:
  "list_all is_host as \<Longrightarrow> list_all (\<lambda>a. \<not> is_generic a \<and> a \<noteq> AssertFailed) as"
proof (induction as)
  case Nil
  show ?case by simp
next
  case (Cons a as)
  then show ?case by (cases a) simp_all
qed

lemma plain_no_assert:
  "list_all (\<lambda>a. \<not> is_generic a \<and> a \<noteq> AssertFailed) as \<Longrightarrow> AssertFailed \<notin> set as"
  by (auto simp add: list_all_iff)

lemma hosts_mapped_locked: "list_all is_host as \<Longrightarrow> mapped_locked L M as"
proof (induction as)
  case Nil
  show ?case by simp
next
  case (Cons a as)
  then show ?case by (cases a) simp_all
qed

lemma hosts_no_lock: "list_all is_host as \<Longrightarrow> list_all (\<lambda>a. \<not> is_lock a) as"
proof (induction as)
  case Nil
  show ?case by simp
next
  case (Cons a as)
  then show ?case by (cases a) simp_all
qed

lemma is_host_rename: "list_all is_host (map (rename_action \<rho>) as) = list_all is_host as"
proof (induction as)
  case Nil
  show ?case by simp
next
  case (Cons a as)
  then show ?case by (cases a) simp_all
qed

lemma inplace_hosts: "list_all is_host (shuffle_inplace R d t (map (shuffle_lane imm) [0..<4]))"
proof -
  have "inplace_ok [shuffle_lane imm 0, shuffle_lane imm 1, shuffle_lane imm 2, shuffle_lane imm 3]"
    by (rule inplace_ok_goal) (rule shuffle_lane_less)+
  then have "list_all is_host (shuffle_inplace F 0 R_ZERO (map (shuffle_lane imm) [0..<4]))"
    by (simp add: inplace_ok_def Let_def upt4)
  then show ?thesis
    by (simp only: shuffle_inplace_rename [of R d t] is_host_rename)
qed

lemma Vec4Init_hosts: "list_all is_host (Vec4Init_code R d v)"
proof (cases v)
  case None
  then show ?thesis by (simp add: Vec4Init_code_def)
next
  case (Some k)
  then show ?thesis
    by (cases k) (simp_all add: Vec4Init_code_def upt4 upt_Suc0_4)
qed

lemma VecAssign_hosts:
  "op inst \<in> {Vec4Init, Vec4Shuffle, Vec4Blend, Vec4Mov} \<Longrightarrow>
   \<exists>pre body. CompIR_VecAssign R t inst = pre @ body \<and> list_all is_host body \<and>
     list_all (\<lambda>a. is_lock a \<or> is_map a \<or> (case a of ReleaseSpillLock _ \<Rightarrow> True | _ \<Rightarrow> False)) pre"
proof (elim insertE emptyE)
  assume o: "op inst = Vec4Init"
  show ?thesis
    by (rule exI [of _ "concat (map (\<lambda>i. [SpillLock (unat (dest inst) + i)]) [0..<4]) @
          concat (map (\<lambda>i. [MapReg (unat (dest inst) + i) NOINIT]) [0..<4]) @
          concat (map (\<lambda>i. [ReleaseSpillLock (unat (dest inst) + i)]) [0..<4])"],
        rule exI [of _ "Vec4Init_code R (unat (dest inst)) (Vec4Init_of (src1 inst))"])
       (simp add: o CompIR_VecAssign_def Let_def Vec4Init_hosts upt4)
next
  assume o: "op inst = Vec4Shuffle"
  show ?thesis
  proof (cases "dest inst = src1 inst")
    case True
    show ?thesis
      by (rule exI [of _ "[Map4DirtyInTemp (unat (dest inst)) (unat (src1 inst))]"],
          rule exI [of _ "shuffle_inplace R (unat (dest inst)) t
                            (map (shuffle_lane (src2 inst)) [0..<4])"])
         (simp add: o True CompIR_VecAssign_def Let_def inplace_hosts)
  next
    case False
    show ?thesis
      by (rule exI [of _ "[Map4DirtyIn (unat (dest inst)) (unat (src1 inst))]"],
          rule exI [of _ "tl (CompIR_VecAssign R t inst)"])
         (simp add: o False CompIR_VecAssign_def Let_def upt4)
  qed
next
  assume o: "op inst = Vec4Blend"
  show ?thesis
    by (rule exI [of _ "[Map4DirtyInIn (unat (dest inst)) (unat (src1 inst)) (unat (src2 inst))]"],
        rule exI [of _ "tl (CompIR_VecAssign R t inst)"])
       (simp add: o CompIR_VecAssign_def Let_def upt4)
next
  assume o: "op inst = Vec4Mov"
  show ?thesis
    by (rule exI [of _ "[Map4DirtyIn (unat (dest inst)) (unat (src1 inst))]"],
        rule exI [of _ "tl (CompIR_VecAssign R t inst)"])
       (simp add: o CompIR_VecAssign_def Let_def upt4)
qed

lemma VecAssign_plain:
  assumes "op inst \<in> {Vec4Init, Vec4Shuffle, Vec4Blend, Vec4Mov}"
  shows "list_all (\<lambda>a. \<not> is_generic a \<and> a \<noteq> AssertFailed) (CompIR_VecAssign R t inst)"
proof -
  from VecAssign_hosts [OF assms, of R t] obtain pre body where
    e: "CompIR_VecAssign R t inst = pre @ body" and b: "list_all is_host body"
    and p: "list_all (\<lambda>a. is_lock a \<or> is_map a \<or>
              (case a of ReleaseSpillLock _ \<Rightarrow> True | _ \<Rightarrow> False)) pre"
    by blast
  have "list_all (\<lambda>a. \<not> is_generic a \<and> a \<noteq> AssertFailed) pre"
    using p
  proof (induction pre)
    case Nil
    show ?case by simp
  next
    case (Cons a pre)
    then show ?case by (cases a) simp_all
  qed
  with hosts_plain [OF b] show ?thesis by (simp add: e)
qed

lemma VecAssign_invalid:
  "op inst \<notin> {Vec4Init, Vec4Shuffle, Vec4Blend, Vec4Mov} \<Longrightarrow>
   CompIR_VecAssign R t inst = INVALIDOP inst"
  by (cases "op inst") (simp_all add: CompIR_VecAssign_def)

lemma VecArith_plain:
  "op inst \<in> {Vec4Add, Vec4Sub, Vec4Mul, Vec4Div, Vec4Scale, Vec4Neg, Vec4Abs} \<Longrightarrow>
   list_all (\<lambda>a. \<not> is_generic a \<and> a \<noteq> AssertFailed) (CompIR_VecArith R inst)"
  by (elim insertE emptyE) (simp_all add: CompIR_VecArith_def Let_def upt4)

lemma VecArith_invalid:
  "op inst \<notin> {Vec4Add, Vec4Sub, Vec4Mul, Vec4Div, Vec4Scale, Vec4Neg, Vec4Abs} \<Longrightarrow>
   CompIR_VecArith R inst = INVALIDOP inst"
  by (cases "op inst") (simp_all add: CompIR_VecArith_def)

lemma VecHoriz_plain:
  "op inst \<in> {Vec4Dot} \<Longrightarrow>
   list_all (\<lambda>a. \<not> is_generic a \<and> a \<noteq> AssertFailed) (CompIR_VecHoriz R inst)"
  by (simp add: CompIR_VecHoriz_def Let_def upt4 upt_Suc0_4)

lemma VecHoriz_invalid:
  "op inst \<notin> {Vec4Dot} \<Longrightarrow> CompIR_VecHoriz R inst = INVALIDOP inst"
  by (cases "op inst") (simp_all add: CompIR_VecHoriz_def)

lemma VecPack_plain:
  "op inst \<in> {Vec4Unpack8To32, Vec4DuplicateUpperBitsAndShift1, Vec4Pack31To8, Vec2Pack32To16} \<Longrightarrow>
   list_all (\<lambda>a. \<not> is_generic a \<and> a \<noteq> AssertFailed) (CompIR_VecPack R inst)"
  by (elim insertE emptyE) (simp_all add: CompIR_VecPack_def Let_def upt4)

lemma VecPack_generic:
  "op inst \<in> {Vec2Unpack16To31, Vec2Unpack16To32, Vec4Pack32To8, Vec2Pack31To16} \<Longrightarrow>
   CompIR_VecPack R inst = [CompIR_Generic inst]"
  by (elim insertE emptyE) (simp_all add: CompIR_VecPack_def)

lemma VecPack_invalid:
  "op inst \<notin> {Vec4Unpack8To32, Vec4DuplicateUpperBitsAndShift1, Vec4Pack31To8, Vec2Pack32To16} \<Longrightarrow>
   op inst \<notin> {Vec2Unpack16To31, Vec2Unpack16To32, Vec4Pack32To8, Vec2Pack31To16} \<Longrightarrow>
   CompIR_VecPack R inst = INVALIDOP inst"
  by (cases "op inst") (simp_all add: CompIR_VecPack_def)

lemma VecClamp_plain:
  "op inst \<in> {Vec4ClampToZero} \<Longrightarrow>
   list_all (\<lambda>a. \<not> is_generic a \<and> a \<noteq> AssertFailed) (CompIR_VecClamp zbb R inst)"
  by (simp add: CompIR_VecClamp_def Let_def upt4)

lemma VecClamp_generic:
  "op inst \<in> {Vec2ClampToZero} \<Longrightarrow> CompIR_VecClamp zbb R inst = [CompIR_Generic inst]"
  by (simp add: CompIR_VecClamp_def)

lemma VecClamp_invalid:
  "op inst \<notin> {Vec4ClampToZero} \<Longrightarrow> op inst \<notin> {Vec2ClampToZero} \<Longrightarrow>
   CompIR_VecClamp zbb R inst = INVALIDOP inst"
  by (cases "op inst") (simp_all add: CompIR_VecClamp_def)

lemma outcomeI:
  assumes "op inst \<in> native \<Longrightarrow> list_all (\<lambda>a. \<not> is_generic a \<and> a \<noteq> AssertFailed) as"
    and "op inst \<notin> native \<Longrightarrow> op inst \<in> generic \<Longrightarrow> as = [CompIR_Generic inst]"
    and "op inst \<notin> native \<Longrightarrow> op inst \<notin> generic \<Longrightarrow> as = INVALIDOP inst"
  shows "outcome fatal native generic inst as"
proof (cases "op inst \<in> native")
  case True
  from assms(1) [OF True] have p: "list_all (\<lambda>a. \<not> is_generic a \<and> a \<noteq> AssertFailed) as" .
  from performed_no_assert [OF plain_no_assert [OF p]] p True show ?thesis
    by (simp add: outcome_def)
next
  case False
  then show ?thesis
    using assms(2,3) by (cases "op inst \<in> generic") (simp_all add: outcome_def INVALIDOP_def)
qed

section \<open>Order of spill locks and mapping calls\<close>

lemma mapped_locked_append_hosts:
  "list_all is_host bs \<Longrightarrow> mapped_locked L M (as @ bs) = mapped_locked L M as"
proof (induction L M as rule: mapped_locked.induct)
  case (1 L M)
  then show ?case by (simp add: hosts_mapped_locked)
qed simp_all

lemma no_lock_append_hosts:
  "list_all is_host bs \<Longrightarrow>
   list_all (\<lambda>a. \<not> is_lock a) (as @ bs) = list_all (\<lambda>a. \<not> is_lock a) as"
  using hosts_no_lock [of bs] by simp

lemma locks_before_maps_Cons:
  "locks_before_maps (a # as) =
     (if is_map a then list_all (\<lambda>a. \<not> is_lock a) as else locks_before_maps as)"
  by (cases a) (simp_all add: locks_before_maps_def)

lemma locks_before_maps_hosts: "list_all is_host as \<Longrightarrow> locks_before_maps as"
proof (induction as)
  case Nil
  show ?case by (simp add: locks_before_maps_def)
next
  case (Cons a as)
  then show ?case by (cases a) (simp_all add: locks_before_maps_Cons)
qed

lemma locks_before_maps_append_hosts:
  assumes "list_all is_host bs"
  shows "locks_before_maps (as @ bs) = locks_before_maps as"
proof (induction as)
  case Nil
  show ?case using locks_before_maps_hosts [OF assms] by (simp add: locks_before_maps_def)
next
  case (Cons a as)
  then show ?case
    using no_lock_append_hosts [OF assms, of as] by (simp add: locks_before_maps_Cons)
qed

lemma locks_VecAssign:
  "mapped_locked {} {} (CompIR_VecAssign R t inst) \<and> locks_before_maps (CompIR_VecAssign R t inst)"
proof (cases "op inst \<in> {Vec4Init, Vec4Shuffle, Vec4Blend, Vec4Mov}")
  case False
  then show ?thesis
    by (simp add: VecAssign_invalid INVALIDOP_def locks_before_maps_def)
next
  case True
  then show ?thesis
  proof (elim insertE emptyE)
    assume o: "op inst = Vec4Init"
    have e: "CompIR_VecAssign R t inst =
        [SpillLock (unat (dest inst) + 0), SpillLock (unat (dest inst) + 1),
         SpillLock (unat (dest inst) + 2), SpillLock (unat (dest inst) + 3),
         MapReg (unat (dest inst) + 0) NOINIT, MapReg (unat (dest inst) + 1) NOINIT,
         MapReg (unat (dest inst) + 2) NOINIT, MapReg (unat (dest inst) + 3) NOINIT,
         ReleaseSpillLock (unat (dest inst) + 0), ReleaseSpillLock (unat (dest inst) + 1),
         ReleaseSpillLock (unat (dest inst) + 2), ReleaseSpillLock (unat (dest inst) + 3)] @
        Vec4Init_code R (unat (dest inst)) (Vec4Init_of (src1 inst))"
      by (simp add: o CompIR_VecAssign_def Let_def upt4)
    show ?thesis
      unfolding e
      by (simp add: mapped_locked_append_hosts locks_before_maps_append_hosts Vec4Init_hosts
            locks_before_maps_Cons del: append_Cons append.simps)
  next
    assume o: "op inst = Vec4Shuffle"
    show ?thesis
    proof (cases "dest inst = src1 inst")
      case True
      then show ?thesis
        by (simp add: o CompIR_VecAssign_def Let_def inplace_hosts hosts_mapped_locked
              hosts_no_lock locks_before_maps_Cons)
    next
      case False
      then show ?thesis
        by (simp add: o CompIR_VecAssign_def Let_def upt4 locks_before_maps_Cons)
    qed
  next
    assume o: "op inst = Vec4Blend"
    show ?thesis
      by (simp add: o CompIR_VecAssign_def Let_def upt4 locks_before_maps_Cons)
  next
    assume o: "op inst = Vec4Mov"
    show ?thesis
      by (simp add: o CompIR_VecAssign_def Let_def upt4 locks_before_maps_Cons)
  qed
qed

lemma locks_VecArith:
  "mapped_locked {} {} (CompIR_VecArith R inst) \<and> locks_before_maps (CompIR_VecArith R inst)"
proof (cases "op inst \<in> {Vec4Add, Vec4Sub, Vec4Mul, Vec4Div, Vec4Scale, Vec4Neg, Vec4Abs}")
  case False
  then show ?thesis
    by (simp add: VecArith_invalid INVALIDOP_def locks_before_maps_def)
next
  case True
  then show ?thesis
    by (elim insertE emptyE)
       (simp_all add: CompIR_VecArith_def Let_def upt4 locks_before_maps_Cons)
qed

lemma locks_VecClamp:
  "mapped_locked {} {} (CompIR_VecClamp zbb R inst) \<and>
   locks_before_maps (CompIR_VecClamp zbb R inst)"
proof (cases "op inst")
  case Vec4ClampToZero
  then show ?thesis
    by (cases zbb) (simp_all add: CompIR_VecClamp_def Let_def upt4 locks_before_maps_Cons)
qed (simp_all add: CompIR_VecClamp_def INVALIDOP_def locks_before_maps_def)

lemma locks_VecHoriz:
  "mapped_locked {} {} (CompIR_VecHoriz R inst) \<and> locks_before_maps (CompIR_VecHoriz R inst)"
proof (cases "op inst")
  case Vec4Dot
  have h: "list_all is_host (if c then [Host x] else [])" for c x
    by simp
  let ?d = "unat (dest inst)" and ?a = "unat (src1 inst)" and ?b = "unat (src2 inst)"
  let ?tail = "drop 27 (CompIR_VecHoriz R inst)"
  have e: "CompIR_VecHoriz R inst =
     [SpillLock ?d,
      SpillLock (?a + 0), SpillLock (?b + 0), SpillLock (?a + 1), SpillLock (?b + 1),
      SpillLock (?a + 2), SpillLock (?b + 2), SpillLock (?a + 3), SpillLock (?b + 3),
      MapReg (?a + 0) INIT, MapReg (?b + 0) INIT, MapReg (?a + 1) INIT, MapReg (?b + 1) INIT,
      MapReg (?a + 2) INIT, MapReg (?b + 2) INIT, MapReg (?a + 3) INIT, MapReg (?b + 3) INIT,
      MapReg ?d NOINIT,
      ReleaseSpillLock (?a + 0), ReleaseSpillLock (?b + 0), ReleaseSpillLock (?a + 1),
      ReleaseSpillLock (?b + 1), ReleaseSpillLock (?a + 2), ReleaseSpillLock (?b + 2),
      ReleaseSpillLock (?a + 3), ReleaseSpillLock (?b + 3),
      ReleaseSpillLock ?d] @ ?tail"
    by (simp add: Vec4Dot CompIR_VecHoriz_def Let_def upt4 split del: if_split cong: if_cong)
  have t: "list_all is_host ?tail"
    by (simp add: Vec4Dot CompIR_VecHoriz_def Let_def upt4 upt_Suc0_4 h
          if_distrib [of "list_all is_host"] split del: if_split cong: if_cong)
  show ?thesis
    by (subst e, subst e)
       (simp add: mapped_locked_append_hosts [OF t] locks_before_maps_append_hosts [OF t]
          locks_before_maps_Cons del: append_Cons append.simps)
qed (simp_all add: CompIR_VecHoriz_def INVALIDOP_def locks_before_maps_def)

lemma locks_before_maps_Nil: "locks_before_maps []"
  by (simp add: locks_before_maps_def)

lemma locks_VecPack:
  "mapped_locked {} {} (CompIR_VecPack R inst) \<and>
   (locks_before_maps (CompIR_VecPack R inst) \<longleftrightarrow> op inst \<noteq> Vec4Pack31To8)"
  by (cases "op inst")
     (simp_all add: CompIR_VecPack_def Let_def upt4 INVALIDOP_def locks_before_maps_Cons
        locks_before_maps_Nil)

text \<open>
  C7 (as amended). In every vector routine and for every instruction: each register given
  to \<^verbatim>\<open>MapReg\<close> is spill-locked at that call, and at every mapping call (\<^verbatim>\<open>MapReg\<close> or a grouped
  variant) the registers mapped earlier for the instruction by \<^verbatim>\<open>MapReg\<close> are all still
  locked. No \<^verbatim>\<open>SpillLock\<close> call comes after a mapping call, except in \<^verbatim>\<open>Vec4Pack31To8\<close>, which
  locks each source lane just before it maps it.
\<close>

theorem C7_locks_and_maps:
  "mapped_locked {} {} (CompIR_VecAssign R tempReg inst)
   \<and> mapped_locked {} {} (CompIR_VecArith R inst)
   \<and> mapped_locked {} {} (CompIR_VecHoriz R inst)
   \<and> mapped_locked {} {} (CompIR_VecPack R inst)
   \<and> mapped_locked {} {} (CompIR_VecClamp zbb R inst)
   \<and> locks_before_maps (CompIR_VecAssign R tempReg inst)
   \<and> locks_before_maps (CompIR_VecArith R inst)
   \<and> locks_before_maps (CompIR_VecHoriz R inst)
   \<and> locks_before_maps (CompIR_VecClamp zbb R inst)
   \<and> (locks_before_maps (CompIR_VecPack R inst) \<longleftrightarrow> op inst \<noteq> Vec4Pack31To8)"
  using locks_VecAssign [of R tempReg inst] locks_VecArith [of R inst] locks_VecHoriz [of R inst]
    locks_VecPack [of R inst] locks_VecClamp [of zbb R inst]
  by simp

theorem C7_locks_and_maps_witness:
  "mapped_locked {} {} (CompIR_VecPack F (inst_of Vec4Pack31To8 8 4 0 0))
   \<and> locks_before_maps (CompIR_VecHoriz F (inst_of Vec4Dot 8 0 4 0))"
  using C7_locks_and_maps [of F "F 16" "inst_of Vec4Pack31To8 8 4 0 0" True]
    C7_locks_and_maps [of F "F 16" "inst_of Vec4Dot 8 0 4 0" True]
  by simp

text \<open>
  C7 as stated fails for \<^verbatim>\<open>Vec4Pack31To8\<close>: its calls are \<^verbatim>\<open>SpillLock(dest)\<close>, then
  \<^verbatim>\<open>SpillLock(src1 + i)\<close>, \<^verbatim>\<open>MapReg(src1 + i)\<close> for each lane, so the lock of lane 1 comes after
  the mapping of lane 0.
\<close>

theorem C7_pack_interleaves_counterexample:
  "take 5 (CompIR_VecPack F (inst_of Vec4Pack31To8 8 4 0 0)) =
     [SpillLock 8, SpillLock 4, MapReg 4 INIT, SpillLock 5, MapReg 5 INIT]
   \<and> \<not> locks_before_maps (CompIR_VecPack F (inst_of Vec4Pack31To8 8 4 0 0))"
  by (simp add: CompIR_VecPack_def inst_of_def Let_def upt4 locks_before_maps_Cons)

section \<open>Native code, generic compiler or invalid opcode\<close>

text \<open>
  C8 (as amended). Every vector routine, on every instruction, does one of three things,
  decided by the opcode. For the opcodes of its own cases it makes no call of the generic
  compiler and fails no assertion. For the unimplemented pack and unpack variants and for
  \<^verbatim>\<open>Vec2ClampToZero\<close> it makes one call of the generic compiler for the instruction and
  nothing else. For any other opcode (the default branch) it fails the assertion
  \<^verbatim>\<open>Invalid IR inst\<close> and then, when the failed assertion is not fatal, calls the generic
  compiler for the instruction; when it is fatal nothing follows the assertion.
\<close>

theorem C8_outcomes:
  "outcome fatal {Vec4Init, Vec4Shuffle, Vec4Blend, Vec4Mov} {} inst
     (CompIR_VecAssign R tempReg inst)
   \<and> outcome fatal {Vec4Add, Vec4Sub, Vec4Mul, Vec4Div, Vec4Scale, Vec4Neg, Vec4Abs} {} inst
     (CompIR_VecArith R inst)
   \<and> outcome fatal {Vec4Dot} {} inst (CompIR_VecHoriz R inst)
   \<and> outcome fatal
       {Vec4Unpack8To32, Vec4DuplicateUpperBitsAndShift1, Vec4Pack31To8, Vec2Pack32To16}
       {Vec2Unpack16To31, Vec2Unpack16To32, Vec4Pack32To8, Vec2Pack31To16} inst
     (CompIR_VecPack R inst)
   \<and> outcome fatal {Vec4ClampToZero} {Vec2ClampToZero} inst (CompIR_VecClamp zbb R inst)"
proof (intro conjI)
  show "outcome fatal {Vec4Init, Vec4Shuffle, Vec4Blend, Vec4Mov} {} inst
          (CompIR_VecAssign R tempReg inst)"
    by (rule outcomeI) (simp_all only: VecAssign_plain VecAssign_invalid empty_iff)
  show "outcome fatal {Vec4Add, Vec4Sub, Vec4Mul, Vec4Div, Vec4Scale, Vec4Neg, Vec4Abs} {} inst
          (CompIR_VecArith R inst)"
    by (rule outcomeI) (simp_all only: VecArith_plain VecArith_invalid empty_iff)
  show "outcome fatal {Vec4Dot} {} inst (CompIR_VecHoriz R inst)"
    by (rule outcomeI) (simp_all only: VecHoriz_plain VecHoriz_invalid empty_iff)
  show "outcome fatal
          {Vec4Unpack8To32, Vec4DuplicateUpperBitsAndShift1, Vec4Pack31To8, Vec2Pack32To16}
          {Vec2Unpack16To31, Vec2Unpack16To32, Vec4Pack32To8, Vec2Pack31To16} inst
          (CompIR_VecPack R inst)"
    by (rule outcomeI; (rule VecPack_plain VecPack_generic VecPack_invalid; assumption))
  show "outcome fatal {Vec4ClampToZero} {Vec2ClampToZero} inst (CompIR_VecClamp zbb R inst)"
    by (rule outcomeI; (rule VecClamp_plain VecClamp_generic VecClamp_invalid; assumption))
qed

theorem C8_outcomes_witness:
  "performed True (CompIR_VecPack F (inst_of Vec4Pack32To8 0 4 0 0)) =
     [CompIR_Generic (inst_of Vec4Pack32To8 0 4 0 0)]
   \<and> performed False (CompIR_VecClamp True F (inst_of Vec4Add 0 4 8 0)) =
     [AssertFailed, CompIR_Generic (inst_of Vec4Add 0 4 8 0)]"
  using C8_outcomes [of True "inst_of Vec4Pack32To8 0 4 0 0" F "F 16" True]
    C8_outcomes [of False "inst_of Vec4Add 0 4 8 0" F "F 16" True]
  by (simp add: outcome_def inst_of_def)

text \<open>
  C8 as stated fails on the default branch: the routine first fails an assertion, and
  where a failed assertion is fatal the generic compiler is never called, so the
  instruction is neither compiled natively nor delegated.
\<close>

theorem C8_default_branch_counterexample:
  "CompIR_VecClamp True F (inst_of Vec4Add 0 4 8 0) =
     [AssertFailed, CompIR_Generic (inst_of Vec4Add 0 4 8 0)]
   \<and> performed True (CompIR_VecClamp True F (inst_of Vec4Add 0 4 8 0)) = [AssertFailed]"
  by (simp add: CompIR_VecClamp_def inst_of_def INVALIDOP_def)

end
